theory Spec2Isabelle
  imports Main "HOL-Library.Sublist"
begin

section \<open>Python values and library calls used by backend/app.py\<close>

text \<open>
  Strings are byte strings (\<open>char list\<close>). Exceptions are values: a function that can raise
  returns \<open>exn_class + 'a\<close>, with \<open>Inl\<close> carrying the class of the exception raised.
\<close>

datatype exn_class =
    PyMongoError | ConfigurationError | InvalidURI | InvalidName
  | ConnectionFailure | AutoReconnect | ServerSelectionTimeoutError | NetworkTimeout
  | OperationFailure
  | BSONError | InvalidBSON
  | ValueError
  | FileNotFoundError | FileExistsError | NotADirectoryError

text \<open>\<open>issubclass(cls, PyMongoError)\<close>, after the class tree of \<open>pymongo.errors\<close>. The classes of
  \<open>bson.errors\<close> and the built-in exceptions derive from \<open>Exception\<close> directly.\<close>

fun is_PyMongoError :: "exn_class \<Rightarrow> bool" where
  "is_PyMongoError PyMongoError = True"
| "is_PyMongoError ConfigurationError = True"
| "is_PyMongoError InvalidURI = True"
| "is_PyMongoError InvalidName = True"
| "is_PyMongoError ConnectionFailure = True"
| "is_PyMongoError AutoReconnect = True"
| "is_PyMongoError ServerSelectionTimeoutError = True"
| "is_PyMongoError NetworkTimeout = True"
| "is_PyMongoError OperationFailure = True"
| "is_PyMongoError BSONError = False"
| "is_PyMongoError InvalidBSON = False"
| "is_PyMongoError ValueError = False"
| "is_PyMongoError FileNotFoundError = False"
| "is_PyMongoError FileExistsError = False"
| "is_PyMongoError NotADirectoryError = False"

subsection \<open>The process environment\<close>

type_synonym environ = "string \<rightharpoonup> string"

text \<open>\<open>os.getenv(key)\<close>: \<open>None\<close> when the variable is unset.\<close>

definition getenv :: "environ \<Rightarrow> string \<Rightarrow> string option" where
  "getenv env key = env key"

text \<open>\<open>os.getenv(key, default)\<close>: the default is returned only when the variable is unset; a
  variable set to the empty string yields the empty string.\<close>

definition getenv_default :: "environ \<Rightarrow> string \<Rightarrow> string \<Rightarrow> string" where
  "getenv_default env key dflt = (case env key of None \<Rightarrow> dflt | Some v \<Rightarrow> v)"

subsection \<open>String methods\<close>

text \<open>\<open>s.split(sep)\<close> for a one-character separator: every occurrence of the separator cuts,
  nothing is trimmed and empty pieces are kept. The result is never the empty list, so the
  first branch of the \<open>case\<close> is never taken.\<close>

fun split_on :: "char \<Rightarrow> string \<Rightarrow> string list" where
  "split_on sep [] = [[]]"
| "split_on sep (x # xs) =
     (if x = sep then [] # split_on sep xs
      else (case split_on sep xs of
              [] \<Rightarrow> [[x]]
            | p # ps \<Rightarrow> (x # p) # ps))"

text \<open>\<open>sep.join(pieces)\<close> for a one-character separator.\<close>

fun join_with :: "char \<Rightarrow> string list \<Rightarrow> string" where
  "join_with sep [] = []"
| "join_with sep [p] = p"
| "join_with sep (p # q # ps) = p @ sep # join_with sep (q # ps)"

text \<open>\<open>s.partition(sep)\<close>, returning the part before the first separator and the part after it
  (both of which are the whole string and the empty string when there is no separator).\<close>

definition partition_on :: "char \<Rightarrow> string \<Rightarrow> string \<times> string" where
  "partition_on sep s = (takeWhile (\<lambda>c. c \<noteq> sep) s, drop 1 (dropWhile (\<lambda>c. c \<noteq> sep) s))"

text \<open>\<open>s.lower()\<close> on ASCII letters; other bytes are left alone.\<close>

definition lower_char :: "char \<Rightarrow> char" where
  "lower_char c =
     (let n = (of_char c :: nat) in if 65 \<le> n \<and> n \<le> 90 then char_of (n + 32) else c)"

definition lower :: "string \<Rightarrow> string" where
  "lower s = map lower_char s"

subsection \<open>\<open>int(...)\<close>\<close>

text \<open>The conversion \<open>int(s)\<close> of a string is a built-in of the interpreter. The functions
  below take it as a parameter: it gives the integer, or the exception that is raised.\<close>

type_synonym int_conversion = "string \<Rightarrow> exn_class + int"

section \<open>Database initialisation\<close>

subsection \<open>The parts of the MongoDB driver that \<open>_init_db\<close> calls\<close>

definition hex_val :: "char \<Rightarrow> nat option" where
  "hex_val c =
     (let n = (of_char c :: nat) in
      if 48 \<le> n \<and> n \<le> 57 then Some (n - 48)
      else if 97 \<le> n \<and> n \<le> 102 then Some (n - 87)
      else if 65 \<le> n \<and> n \<le> 70 then Some (n - 55)
      else None)"

text \<open>\<open>urllib.parse.unquote_plus\<close> on bytes: \<open>+\<close> is a space and \<open>%XY\<close> is the byte
  with that hexadecimal code.\<close>

fun unquote :: "string \<Rightarrow> string" where
  "unquote (a # b # c # s) =
     (if a = CHR ''%'' then
        (case (hex_val b, hex_val c) of
           (Some h, Some l) \<Rightarrow> char_of (16 * h + l) # unquote s
         | _ \<Rightarrow> a # unquote (b # c # s))
      else a # unquote (b # c # s))"
| "unquote s = s"

definition unquote_plus :: "string \<Rightarrow> string" where
  "unquote_plus s = unquote (map (\<lambda>c. if c = CHR ''+'' then CHR '' '' else c) s)"

text \<open>The database name found in a connection string by the driver's \<open>parse_uri\<close>: in the
  part before the first \<open>?\<close>, the text after the last \<open>/\<close>, percent-decoded, cut at the
  first dot (the rest names a collection). \<open>None\<close> when the connection string names no
  database.\<close>

definition parse_dbase :: "string \<Rightarrow> exn_class + string option" where
  "parse_dbase raw =
     (if raw \<noteq> [] then
        (let d = unquote_plus raw;
             d = (if CHR ''.'' \<in> set d then fst (partition_on CHR ''.'' d) else d)
         in if \<exists>c \<in> set d. c \<in> set [CHR ''/'', CHR '' '', CHR 0x22, CHR ''$'']
            then Inl InvalidURI else Inr (Some d))
      else Inr None)"

definition parse_scheme_free :: "string \<Rightarrow> exn_class + string option" where
  "parse_scheme_free scheme_free =
     (if scheme_free = [] then Inl InvalidURI
      else
        (let host_plus_db_part = fst (partition_on CHR ''?'' scheme_free)
         in if CHR ''/'' \<in> set host_plus_db_part
            then parse_dbase (rev (takeWhile (\<lambda>c. c \<noteq> CHR ''/'') (rev host_plus_db_part)))
            else Inr None))"

definition parse_uri_database :: "string \<Rightarrow> exn_class + string option" where
  "parse_uri_database uri =
     (if prefix ''mongodb://'' uri then parse_scheme_free (drop 10 uri)
      else if prefix ''mongodb+srv://'' uri then parse_scheme_free (drop 14 uri)
      else Inl InvalidURI)"

text \<open>A client, as far as \<open>_init_db\<close> looks at it: the database name of its connection string.\<close>

record mongo_client =
  default_database_name :: "string option"

text \<open>\<open>MongoClient(host)\<close> reads its argument when it is constructed and connects later. An
  argument with a \<open>/\<close> in it is parsed as a connection string; one without is a list of hosts
  and names no database. The driver also checks credentials, the host list and the options (and
  looks up DNS for \<open>mongodb+srv\<close>); that part is the parameter \<open>check_rest\<close>, which returns
  the exception raised, or \<open>None\<close> when the argument is accepted.\<close>

definition MongoClient :: "(string \<Rightarrow> exn_class option) \<Rightarrow> string \<Rightarrow> exn_class + mongo_client" where
  "MongoClient check_rest host =
     (case (if CHR ''/'' \<in> set host then parse_uri_database host else Inr None) of
        Inl e \<Rightarrow> Inl e
      | Inr d \<Rightarrow> (case check_rest host of
                    Some e \<Rightarrow> Inl e
                  | None \<Rightarrow> Inr \<lparr>default_database_name = d\<rparr>))"

text \<open>\<open>client[name]\<close> builds \<open>Database(client, name)\<close>, which checks the name. A database is
  represented by its name.\<close>

definition Database :: "string \<Rightarrow> exn_class + string" where
  "Database name =
     (if name = ''$external'' then Inr name
      else if name = [] then Inl InvalidName
      else if \<exists>c \<in> set name.
                c \<in> set [CHR '' '', CHR ''.'', CHR ''$'', CHR ''/'', CHR 0x5C, CHR 0x00, CHR 0x22]
      then Inl InvalidName
      else Inr name)"

text \<open>\<open>client.get_default_database()\<close> with no argument: the database of the connection
  string; when the connection string names none, the driver raises \<open>ConfigurationError\<close>. It
  never returns \<open>None\<close>; the result type has the option because the caller tests for it.\<close>

definition get_default_database :: "mongo_client \<Rightarrow> exn_class + string option" where
  "get_default_database client =
     (case default_database_name client of
        None \<Rightarrow> Inl ConfigurationError
      | Some name \<Rightarrow> (case Database name of Inl e \<Rightarrow> Inl e | Inr db \<Rightarrow> Inr (Some db)))"

subsection \<open>\<open>_init_db\<close>\<close>

definition mongo_uri_setting :: "environ \<Rightarrow> string" where
  "mongo_uri_setting env = getenv_default env ''MONGO_URI'' ''mongodb://localhost:27017/verdantia''"

definition mongo_db_setting :: "environ \<Rightarrow> string option" where
  "mongo_db_setting env = getenv env ''MONGO_DB''"

text \<open>The test \<open>if mongo_db\<close> holds for a string that is neither \<open>None\<close> nor empty.\<close>

definition init_db ::
  "(string \<Rightarrow> exn_class option) \<Rightarrow> environ \<Rightarrow> exn_class + (mongo_client \<times> string)" where
  "init_db check_rest env =
     (let mongo_uri = mongo_uri_setting env;
          mongo_db = mongo_db_setting env
      in case MongoClient check_rest mongo_uri of
           Inl e \<Rightarrow> Inl e
         | Inr client \<Rightarrow>
             (if mongo_db \<noteq> None \<and> mongo_db \<noteq> Some [] then
                (case Database (the mongo_db) of
                   Inl e \<Rightarrow> Inl e
                 | Inr db \<Rightarrow> Inr (client, db))
              else
                (case get_default_database client of
                   Inl e \<Rightarrow> Inl e
                 | Inr None \<Rightarrow>
                     (case Database ''verdantia'' of
                        Inl e \<Rightarrow> Inl e
                      | Inr db \<Rightarrow> Inr (client, db))
                 | Inr (Some db) \<Rightarrow> Inr (client, db))))"

section \<open>Application configuration\<close>

subsection \<open>Paths\<close>

text \<open>\<open>os.path.join(a, b)\<close> on POSIX.\<close>

definition path_join :: "string \<Rightarrow> string \<Rightarrow> string" where
  "path_join a b =
     (if prefix ''/'' b then b
      else if a = [] \<or> last a = CHR ''/'' then a @ b
      else a @ ''/'' @ b)"

subsection \<open>The settings read by \<open>create_app\<close> and by the main block\<close>

record config =
  JWT_SECRET_KEY :: string
  UPLOAD_DIR :: string
  CERT_DIR :: string
  FRONTEND_DIR :: string

text \<open>The first argument is \<open>os.getcwd()\<close>.\<close>

definition create_app_config :: "string \<Rightarrow> environ \<Rightarrow> config" where
  "create_app_config getcwd env =
     \<lparr>JWT_SECRET_KEY = getenv_default env ''JWT_SECRET_KEY'' ''dev-secret-change-me'',
      UPLOAD_DIR = getenv_default env ''UPLOAD_DIR'' ''uploads'',
      CERT_DIR = getenv_default env ''CERT_DIR'' ''certs'',
      FRONTEND_DIR = getenv_default env ''FRONTEND_DIR''
                       (path_join (path_join getcwd ''frontend'') ''dist'')\<rparr>"

datatype cors_policy = Wildcard | Origins "string list"

definition cors_origins :: "environ \<Rightarrow> cors_policy" where
  "cors_origins env =
     (let cors_origins = getenv_default env ''CORS_ORIGINS'' ''*''
      in if cors_origins \<noteq> ''*'' then Origins (split_on CHR '','' cors_origins) else Wildcard)"

text \<open>\<open>int(os.getenv("PORT", 5000))\<close>: the conversion of the variable's string, or the integer
  default, which \<open>int\<close> returns as it is.\<close>

definition listen_port :: "int_conversion \<Rightarrow> environ \<Rightarrow> exn_class + int" where
  "listen_port int_of_string env =
     (case getenv env ''PORT'' of None \<Rightarrow> Inr 5000 | Some v \<Rightarrow> int_of_string v)"

definition debug_flag :: "environ \<Rightarrow> bool" where
  "debug_flag env = (lower (getenv_default env ''FLASK_DEBUG'' ''false'') = ''true'')"

section \<open>Request handlers\<close>

subsection \<open>Responses\<close>

datatype json_value = JBool bool | JStr string

text \<open>A response is a JSON object with a status code (\<open>jsonify(...)\<close>, 200 unless the view
  returns another code), a file sent from the file system (the node it was read from, its bytes
  and the \<open>as_attachment\<close> flag), or an HTTP error raised by the framework (\<open>NotFound\<close> is
  \<open>Abort 404\<close>).\<close>

datatype response =
    Json nat "(string \<times> json_value) list"
  | SendFile "string list" string bool
  | Abort nat

subsection \<open>\<open>/health\<close>\<close>

text \<open>An exception object: its class and \<open>str(e)\<close>.\<close>

datatype py_exception = Exception exn_class string

text \<open>The argument is the outcome of \<open>app.db.command("ping")\<close>: a reply, or the exception it
  raised. \<open>Inl\<close> in the result is an exception that leaves the view.\<close>

definition health :: "(py_exception + 'reply) \<Rightarrow> py_exception + response" where
  "health ping =
     (case ping of
        Inr _ \<Rightarrow> Inr (Json 200 [(''ok'', JBool True), (''db'', JStr ''up'')])
      | Inl e \<Rightarrow>
          (case e of
             Exception cls msg \<Rightarrow>
               if is_PyMongoError cls
               then Inr (Json 500 [(''ok'', JBool False), (''db'', JStr ''down''),
                                   (''error'', JStr msg)])
               else Inl e))"

section \<open>The file system\<close>

text \<open>
  A file system without links: a node is a regular file with its bytes or a directory, and the
  nodes are keyed by their absolute path, the list of names from the root. The root is always a
  directory.
\<close>

datatype node = File string | Dir

type_synonym filesystem = "string list \<rightharpoonup> node"

definition node_at :: "filesystem \<Rightarrow> string list \<Rightarrow> node option" where
  "node_at fs p = (if p = [] then Some Dir else fs p)"

text \<open>Path resolution by the operating system, one component at a time: every component, also
  an empty one or \<open>.\<close>, is looked up in a node that must be a directory, and \<open>..\<close> goes to
  the parent (the root is its own parent).\<close>

fun walk :: "filesystem \<Rightarrow> string list \<Rightarrow> string list \<Rightarrow> exn_class + string list" where
  "walk fs cur [] = Inr cur"
| "walk fs cur (c # cs) =
     (case node_at fs cur of
        None \<Rightarrow> Inl FileNotFoundError
      | Some (File _) \<Rightarrow> Inl NotADirectoryError
      | Some Dir \<Rightarrow>
          if c = [] \<or> c = ''.'' then walk fs cur cs
          else if c = ''..'' then walk fs (butlast cur) cs
          else walk fs (cur @ [c]) cs)"

text \<open>\<open>os.stat(path)\<close> for a process with working directory \<open>cwd\<close>: the node the path
  names and where it is. Python refuses a path with a NUL byte.\<close>

definition stat :: "filesystem \<Rightarrow> string list \<Rightarrow> string \<Rightarrow> exn_class + (string list \<times> node)" where
  "stat fs cwd path =
     (if CHR 0x00 \<in> set path then Inl ValueError
      else if path = [] then Inl FileNotFoundError
      else
        (case walk fs (if hd path = CHR ''/'' then [] else cwd) (split_on CHR ''/'' path) of
           Inl e \<Rightarrow> Inl e
         | Inr q \<Rightarrow> (case node_at fs q of
                       None \<Rightarrow> Inl FileNotFoundError
                     | Some n \<Rightarrow> Inr (q, n))))"

text \<open>\<open>os.path.exists\<close>, \<open>os.path.isfile\<close> and \<open>os.path.isdir\<close>: false when \<open>os.stat\<close>
  fails.\<close>

definition exists :: "filesystem \<Rightarrow> string list \<Rightarrow> string \<Rightarrow> bool" where
  "exists fs cwd path = (case stat fs cwd path of Inl _ \<Rightarrow> False | Inr _ \<Rightarrow> True)"

definition isfile :: "filesystem \<Rightarrow> string list \<Rightarrow> string \<Rightarrow> bool" where
  "isfile fs cwd path =
     (case stat fs cwd path of Inr (_, File _) \<Rightarrow> True | _ \<Rightarrow> False)"

definition isdir :: "filesystem \<Rightarrow> string list \<Rightarrow> string \<Rightarrow> bool" where
  "isdir fs cwd path =
     (case stat fs cwd path of Inr (_, Dir) \<Rightarrow> True | _ \<Rightarrow> False)"

section \<open>Serving files\<close>

subsection \<open>\<open>posixpath.normpath\<close>\<close>

text \<open>The loop over the components: \<open>new_comps\<close> is the list built so far.\<close>

fun norm_comps :: "bool \<Rightarrow> string list \<Rightarrow> string list \<Rightarrow> string list" where
  "norm_comps initial_slashes new_comps [] = new_comps"
| "norm_comps initial_slashes new_comps (c # comps) =
     (if c = [] \<or> c = ''.'' then norm_comps initial_slashes new_comps comps
      else if c \<noteq> ''..'' \<or> (\<not> initial_slashes \<and> new_comps = [])
                \<or> (new_comps \<noteq> [] \<and> last new_comps = ''..'')
      then norm_comps initial_slashes (new_comps @ [c]) comps
      else if new_comps \<noteq> [] then norm_comps initial_slashes (butlast new_comps) comps
      else norm_comps initial_slashes new_comps comps)"

definition normpath :: "string \<Rightarrow> string" where
  "normpath path =
     (if path = [] then ''.''
      else
        (let initial_slashes =
               (if prefix ''/'' path
                then (if prefix ''//'' path \<and> \<not> prefix ''///'' path then 2 else 1)
                else (0::nat));
             comps = norm_comps (initial_slashes \<noteq> 0) [] (split_on CHR ''/'' path);
             p = replicate initial_slashes CHR ''/'' @ join_with CHR ''/'' comps
         in if p = [] then ''.'' else p))"

subsection \<open>\<open>safe_join\<close> and \<open>send_from_directory\<close>\<close>

text \<open>\<open>werkzeug.security.safe_join(directory, filename)\<close> on POSIX: \<open>None\<close> for a file name
  that is absolute or that, once normalised, starts by going up.\<close>

definition safe_join :: "string \<Rightarrow> string \<Rightarrow> string option" where
  "safe_join directory filename =
     (let directory = (if directory = [] then ''.'' else directory);
          filename = (if filename \<noteq> [] then normpath filename else filename)
      in if prefix ''/'' filename \<or> filename = ''..'' \<or> prefix ''../'' filename then None
         else Some (path_join directory filename))"

text \<open>\<open>flask.send_from_directory(directory, path)\<close> for a plain GET (no conditional and no
  range headers): the path is joined safely, taken relative to the application's root path,
  and must name a regular file; otherwise \<open>NotFound\<close> is raised.\<close>

definition send_from_directory ::
  "filesystem \<Rightarrow> string list \<Rightarrow> string \<Rightarrow> string \<Rightarrow> string \<Rightarrow> bool \<Rightarrow> response" where
  "send_from_directory fs cwd root_path directory path as_attachment =
     (case safe_join directory path of
        None \<Rightarrow> Abort 404
      | Some path_str \<Rightarrow>
          (case stat fs cwd (path_join root_path path_str) of
             Inr (q, File bytes) \<Rightarrow> SendFile q bytes as_attachment
           | _ \<Rightarrow> Abort 404))"

subsection \<open>The views\<close>

text \<open>What the views read from the running application: its configuration, Flask's
  \<open>app.root_path\<close> and the working directory of the process.\<close>

record app =
  app_config :: config
  app_root_path :: string
  app_cwd :: "string list"



definition serve_spa_index :: "app \<Rightarrow> filesystem \<Rightarrow> response" where
  "serve_spa_index a fs =
     (let index_path = path_join (FRONTEND_DIR (app_config a)) ''index.html''
      in if exists fs (app_cwd a) index_path
         then send_from_directory fs (app_cwd a) (app_root_path a) (FRONTEND_DIR (app_config a))
                ''index.html'' False
         else Json 501 [(''error'', JStr ''frontend_not_built'')])"

definition spa_root :: "app \<Rightarrow> filesystem \<Rightarrow> response" where
  "spa_root a fs = serve_spa_index a fs"

definition spa_catch_all :: "app \<Rightarrow> filesystem \<Rightarrow> string \<Rightarrow> response" where
  "spa_catch_all a fs path =
     (let full = path_join (FRONTEND_DIR (app_config a)) path
      in if isfile fs (app_cwd a) full
         then send_from_directory fs (app_cwd a) (app_root_path a) (FRONTEND_DIR (app_config a))
                path False
         else serve_spa_index a fs)"

subsection \<open>A small deployment\<close>

text \<open>An application rooted at \<open>/srv\<close> with its upload, certificate and frontend
  directories, and a file next to them that no view may serve. The properties below are
  evaluated on it.\<close>

definition example_fs :: filesystem where
  "example_fs =
     [[''srv''] \<mapsto> Dir,
      [''srv'', ''secret.txt''] \<mapsto> File ''s3cr3t'',
      [''srv'', ''uploads''] \<mapsto> Dir,
      [''srv'', ''uploads'', ''a.png''] \<mapsto> File ''png'',
      [''srv'', ''certs''] \<mapsto> Dir,
      [''srv'', ''dist''] \<mapsto> Dir,
      [''srv'', ''dist'', ''index.html''] \<mapsto> File ''<html>'',
      [''srv'', ''dist'', ''app.js''] \<mapsto> File ''js'']"

definition example_app :: app where
  "example_app =
     \<lparr>app_config = create_app_config ''/srv'' [''FRONTEND_DIR'' \<mapsto> ''/srv/dist''],
      app_root_path = ''/srv'',
      app_cwd = [''srv'']\<rparr>"

section \<open>Routing\<close>

datatype http_method = GET | HEAD | OPTIONS | POST | PUT | PATCH | DELETE

datatype endpoint =
    Feature string
  | ServeUpload string
  | ServeCert string
  | Health
  | SpaRoot
  | SpaCatchAll string

text \<open>The outcome of routing: a rule is selected, the client is redirected to another path, or
  the request is answered 404 or 405.\<close>

datatype routing = Matched endpoint | RequestRedirect string | NotFound | MethodNotAllowed

text \<open>The argument of a rule \<open>pre<path:name>\<close>: what follows the static part. The converter's
  pattern \<open>[^/].*?\<close> is matched up to the end of the path: the argument is not empty, does not
  start with a slash and, as the dot of a pattern does not match a line feed, has no line feed
  after its first character. Slashes inside the argument are matched as they are.\<close>

definition path_arg :: "string \<Rightarrow> string \<Rightarrow> string option" where
  "path_arg pre p =
     (let rest = drop (length pre) p
      in if prefix pre p \<and> rest \<noteq> [] \<and> hd rest \<noteq> CHR ''/'' \<and> CHR 0x0A \<notin> set (tl rest)
         then Some rest else None)"

text \<open>The rules that \<open>create_app\<close> registers itself, by path alone. A rule with a static
  first segment is tried before the catch-all \<open>/<path:path>\<close>.\<close>

definition own_rule :: "string \<Rightarrow> endpoint option" where
  "own_rule p =
     (if p = ''/health'' then Some Health
      else if p = ''/'' then Some SpaRoot
      else
        (case path_arg ''/uploads/'' p of
           Some filename \<Rightarrow> Some (ServeUpload filename)
         | None \<Rightarrow>
             (case path_arg ''/certs/'' p of
                Some filename \<Rightarrow> Some (ServeCert filename)
              | None \<Rightarrow>
                  (case path_arg ''/'' p of
                     Some path \<Rightarrow> Some (SpaCatchAll path)
                   | None \<Rightarrow> None))))"

text \<open>These rules are registered with \<open>app.get\<close>: they answer GET, and HEAD and OPTIONS,
  which Flask adds (an OPTIONS request that selects a rule is then answered by Flask
  itself).\<close>

definition own_methods :: "http_method set" where
  "own_methods = {GET, HEAD, OPTIONS}"

text \<open>
  The four blueprints are registered under \<open>/api/auth\<close> and \<open>/api\<close>; their own rules are
  not in this file. So \<open>feature_rules\<close> gives, for a method and a path, what the rules of the
  blueprints say: one of them matches and selects a view, one would match the path with a slash
  added, or one matches the path but not the method. Registration under a prefix puts every
  such rule below \<open>/api\<close>.
\<close>

datatype feature_match = ToView string | AddSlash | OtherMethods

definition module_rule ::
  "((http_method \<times> string) \<rightharpoonup> feature_match) \<Rightarrow> http_method \<Rightarrow> string \<Rightarrow> feature_match option" where
  "module_rule feature_rules m p =
     (if p = ''/api'' \<or> prefix ''/api/'' p then feature_rules (m, p) else None)"

text \<open>One pass of the router over a path. The rules below the static segment \<open>api\<close> are tried
  before the catch-all. The result is the rule selected or the request for a slash, if any, and
  whether some rule matched the path but not the method.\<close>

datatype rule_match = Rule endpoint | SlashRequired

definition match_once ::
  "((http_method \<times> string) \<rightharpoonup> feature_match) \<Rightarrow> http_method \<Rightarrow> string
     \<Rightarrow> rule_match option \<times> bool" where
  "match_once feature_rules m p =
     (case module_rule feature_rules m p of
        Some (ToView e) \<Rightarrow> (Some (Rule (Feature e)), False)
      | Some AddSlash \<Rightarrow> (Some SlashRequired, False)
      | other \<Rightarrow>
          (case own_rule p of
             Some e \<Rightarrow> if m \<in> own_methods then (Some (Rule e), False) else (None, True)
           | None \<Rightarrow> (None, other = Some OtherMethods)))"

text \<open>\<open>re.sub("/{2,}?", "/", path)\<close>: from left to right, each pair of slashes becomes one.\<close>

fun merge_slashes :: "string \<Rightarrow> string" where
  "merge_slashes (a # b # s) =
     (if a = CHR ''/'' \<and> b = CHR ''/'' then CHR ''/'' # merge_slashes s
      else a # merge_slashes (b # s))"
| "merge_slashes s = s"

text \<open>The path that is matched: the request's path, which is \<open>PATH_INFO\<close> of the WSGI
  environment, with its leading slashes replaced by one.\<close>

definition request_path :: "string \<Rightarrow> string" where
  "request_path path_info = CHR ''/'' # dropWhile (\<lambda>c. c = CHR ''/'') path_info"

text \<open>
  Routing of a request. When the first pass selects nothing, the router merges slashes and
  tries again: a match is then answered with a redirect to the merged path, and no match with
  405 when some rule matched the path with another method, and with 404 otherwise. An empty
  path is the root without its slash.
\<close>

definition dispatch ::
  "((http_method \<times> string) \<rightharpoonup> feature_match) \<Rightarrow> http_method \<Rightarrow> string \<Rightarrow> routing" where
  "dispatch feature_rules m path_info =
     (if path_info = [] then (if m \<in> own_methods then RequestRedirect ''/'' else NotFound)
      else
        (let p = request_path path_info
         in case match_once feature_rules m p of
              (Some (Rule e), other) \<Rightarrow> Matched e
            | (Some SlashRequired, other) \<Rightarrow> RequestRedirect (p @ ''/'')
            | (None, other) \<Rightarrow>
                (let merged = merge_slashes p
                 in case match_once feature_rules m merged of
                      (Some (Rule e), other') \<Rightarrow> RequestRedirect merged
                    | (Some SlashRequired, other') \<Rightarrow> RequestRedirect (merged @ ''/'')
                    | (None, other') \<Rightarrow>
                        if other \<or> other' then MethodNotAllowed else NotFound)))"

section \<open>Creating the upload and certificate directories\<close>

text \<open>\<open>os.path.split\<close> on POSIX: the part up to the last slash, without its trailing slashes
  unless it consists of slashes only, and the part after the last slash.\<close>

definition psplit :: "string \<Rightarrow> string \<times> string" where
  "psplit p =
     (let tail = rev (takeWhile (\<lambda>c. c \<noteq> CHR ''/'') (rev p));
          head = rev (dropWhile (\<lambda>c. c \<noteq> CHR ''/'') (rev p))
      in (if head \<noteq> [] \<and> head \<noteq> replicate (length head) CHR ''/''
          then rev (dropWhile (\<lambda>c. c = CHR ''/'') (rev head)) else head,
          tail))"

text \<open>\<open>os.mkdir(path)\<close>: trailing slashes are ignored; the parent must resolve to a
  directory, and the last component must not exist yet.\<close>

definition mkdir :: "filesystem \<Rightarrow> string list \<Rightarrow> string \<Rightarrow> exn_class + filesystem" where
  "mkdir fs cwd path =
     (if CHR 0x00 \<in> set path then Inl ValueError
      else if path = [] then Inl FileNotFoundError
      else
        (let comps = rev (dropWhile (\<lambda>c. c = []) (rev (split_on CHR ''/'' path)))
         in if comps = [] then Inl FileExistsError
            else
              (case walk fs (if hd path = CHR ''/'' then [] else cwd) (butlast comps) of
                 Inl e \<Rightarrow> Inl e
               | Inr parent \<Rightarrow>
                   (case node_at fs parent of
                      None \<Rightarrow> Inl FileNotFoundError
                    | Some (File _) \<Rightarrow> Inl NotADirectoryError
                    | Some Dir \<Rightarrow>
                        if last comps = ''.'' \<or> last comps = ''..'' then Inl FileExistsError
                        else if node_at fs (parent @ [last comps]) \<noteq> None
                        then Inl FileExistsError
                        else Inr (fs(parent @ [last comps] \<mapsto> Dir))))))"

fun is_OSError :: "exn_class \<Rightarrow> bool" where
  "is_OSError FileNotFoundError = True"
| "is_OSError FileExistsError = True"
| "is_OSError NotADirectoryError = True"
| "is_OSError _ = False"

text \<open>
  \<open>os.makedirs(name, exist_ok=True)\<close>. A call changes the file system also when it raises,
  so the result is the exception raised, if any, together with the file system it leaves.
  The first definition is the two calls of \<open>os.path.split\<close> at its start, the second its
  last statement: \<open>mkdir\<close>, with an \<open>OSError\<close> ignored when the name is a directory.
\<close>

definition makedirs_split :: "string \<Rightarrow> string \<times> string" where
  "makedirs_split name =
     (let (head, tail) = psplit name in if tail = [] then psplit head else (head, tail))"

definition mkdir_exist_ok ::
  "filesystem \<Rightarrow> string list \<Rightarrow> string \<Rightarrow> exn_class option \<times> filesystem" where
  "mkdir_exist_ok fs cwd name =
     (case mkdir fs cwd name of
        Inr fs' \<Rightarrow> (None, fs')
      | Inl e \<Rightarrow> if is_OSError e \<and> isdir fs cwd name then (None, fs) else (Some e, fs))"

function makedirs ::
  "filesystem \<Rightarrow> string list \<Rightarrow> string \<Rightarrow> exn_class option \<times> filesystem" where
  "makedirs fs cwd name =
     (let head = fst (makedirs_split name); tail = snd (makedirs_split name)
      in if head \<noteq> [] \<and> tail \<noteq> [] \<and> \<not> exists fs cwd head then
           (case makedirs fs cwd head of
              (Some e, fs') \<Rightarrow>
                if e = FileExistsError
                then (if tail = ''.'' then (None, fs') else mkdir_exist_ok fs' cwd name)
                else (Some e, fs')
            | (None, fs') \<Rightarrow>
                if tail = ''.'' then (None, fs') else mkdir_exist_ok fs' cwd name)
         else mkdir_exist_ok fs cwd name)"
  by pat_completeness auto
termination
proof (relation "measure (\<lambda>(fs, cwd, name). length name)")
  show "wf (measure (\<lambda>(fs, cwd, name). length name))" by simp
next
  fix fs :: filesystem and cwd :: "string list" and name head tail :: string
  assume h: "head = fst (makedirs_split name)" and t: "tail = snd (makedirs_split name)"
    and c: "head \<noteq> [] \<and> tail \<noteq> [] \<and> \<not> exists fs cwd head"
  have len: "length (fst (psplit p)) + length (snd (psplit p)) \<le> length p" for p
  proof -
    have "length (dropWhile (\<lambda>c. c \<noteq> CHR ''/'') (rev p))
        + length (takeWhile (\<lambda>c. c \<noteq> CHR ''/'') (rev p)) = length p"
      using takeWhile_dropWhile_id [of "\<lambda>c. c \<noteq> CHR ''/''" "rev p"]
      by (metis add.commute length_append length_rev)
    moreover have "length (dropWhile (\<lambda>c. c = CHR ''/'') (rev (rev (dropWhile (\<lambda>c. c \<noteq> CHR ''/'') (rev p)))))
        \<le> length (dropWhile (\<lambda>c. c \<noteq> CHR ''/'') (rev p))"
      using length_dropWhile_le [of "\<lambda>c. c = CHR ''/''" "dropWhile (\<lambda>c. c \<noteq> CHR ''/'') (rev p)"]
      by simp
    ultimately show ?thesis by (simp add: psplit_def Let_def)
  qed
  have tl: "0 < length tail" using c by simp
  have "length head < length name"
  proof (cases "snd (psplit name) = []")
    case True
    then have ms: "makedirs_split name = psplit (fst (psplit name))"
      by (simp add: makedirs_split_def case_prod_beta)
    have "length head + length tail \<le> length (fst (psplit name))"
      using len [of "fst (psplit name)"] by (simp add: h t ms)
    moreover have "length (fst (psplit name)) \<le> length name"
      using len [of name] by simp
    ultimately show ?thesis using tl by linarith
  next
    case False
    then have ms: "makedirs_split name = psplit name"
      by (simp add: makedirs_split_def case_prod_beta)
    have "length head + length tail \<le> length name"
      using len [of name] by (simp add: h t ms)
    then show ?thesis using tl by linarith
  qed
  then show "((fs, cwd, head), (fs, cwd, name)) \<in> measure (\<lambda>(fs, cwd, name). length name)"
    by simp
qed

declare makedirs.simps [simp del]

text \<open>The two calls in \<open>create_app\<close>. An exception from the first call ends the start-up.\<close>

definition ensure_dirs :: "config \<Rightarrow> filesystem \<Rightarrow> string list \<Rightarrow> exn_class option \<times> filesystem" where
  "ensure_dirs c fs cwd =
     (case makedirs fs cwd (UPLOAD_DIR c) of
        (Some e, fs') \<Rightarrow> (Some e, fs')
      | (None, fs') \<Rightarrow> makedirs fs' cwd (CERT_DIR c))"

section \<open>Properties\<close>

subsection \<open>Splitting and joining\<close>

lemma split_on_nonempty: "split_on sep s \<noteq> []"
  by (induction s) (auto split: list.splits)

lemma join_with_Cons: "ps \<noteq> [] \<Longrightarrow> join_with sep (p # ps) = p @ sep # join_with sep ps"
  by (cases ps) auto

lemma join_split_on: "join_with sep (split_on sep s) = s"
proof (induction s)
  case Nil
  show ?case by simp
next
  case (Cons x xs)
  obtain w ws where r: "split_on sep xs = w # ws"
    using split_on_nonempty [of sep xs] by (cases "split_on sep xs") auto
  show ?case
  proof (cases "x = sep")
    case True
    with Cons show ?thesis by (simp add: join_with_Cons split_on_nonempty)
  next
    case False
    with Cons r show ?thesis by (cases ws) auto
  qed
qed

lemma split_on_no_sep: "p \<in> set (split_on sep s) \<Longrightarrow> sep \<notin> set p"
proof (induction s arbitrary: p)
  case Nil
  then show ?case by simp
next
  case (Cons x xs)
  obtain w ws where r: "split_on sep xs = w # ws"
    using split_on_nonempty [of sep xs] by (cases "split_on sep xs") auto
  have w: "sep \<notin> set w" and ws: "\<And>q. q \<in> set ws \<Longrightarrow> sep \<notin> set q"
    using Cons.IH r by auto
  show ?case
  proof (cases "x = sep")
    case True
    with Cons.prems r w ws show ?thesis by auto
  next
    case False
    with Cons.prems r w ws show ?thesis by auto
  qed
qed

lemma length_split_on: "length (split_on sep s) = Suc (length (filter (\<lambda>c. c = sep) s))"
proof (induction s)
  case Nil
  show ?case by simp
next
  case (Cons x xs)
  obtain w ws where r: "split_on sep xs = w # ws"
    using split_on_nonempty [of sep xs] by (cases "split_on sep xs") auto
  with Cons show ?case by auto
qed

subsection \<open>More on splitting\<close>

lemma split_on_append_sep:
  "split_on sep (a @ sep # b) = split_on sep a @ split_on sep b"
proof (induction a)
  case Nil
  show ?case by simp
next
  case (Cons x a)
  obtain p ps where r: "split_on sep a = p # ps"
    using split_on_nonempty [of sep a] by (cases "split_on sep a") auto
  with Cons show ?case by simp
qed

lemma split_on_no_sep_id: "sep \<notin> set s \<Longrightarrow> split_on sep s = [s]"
  by (induction s) auto

lemma split_on_join_with:
  "cs \<noteq> [] \<Longrightarrow> (\<And>x. x \<in> set cs \<Longrightarrow> sep \<notin> set x) \<Longrightarrow> split_on sep (join_with sep cs) = cs"
proof (induction sep cs rule: join_with.induct)
  case (1 sep)
  then show ?case by simp
next
  case (2 sep p)
  then show ?case by (simp add: split_on_no_sep_id)
next
  case (3 sep p q ps)
  have "split_on sep (join_with sep (q # ps)) = q # ps"
    using 3 by simp
  moreover have "split_on sep p = [p]"
    using 3 by (simp add: split_on_no_sep_id)
  ultimately show ?case
    by (simp add: split_on_append_sep)
qed

lemma split_on_snoc_sep: "split_on sep (a @ [sep]) = split_on sep a @ [[]]"
  using split_on_append_sep [of sep a "[]"] by simp

subsection \<open>Walking the file system\<close>

lemma walk_append:
  "walk fs cur (xs @ ys) = (case walk fs cur xs of Inl e \<Rightarrow> Inl e | Inr q \<Rightarrow> walk fs q ys)"
  by (induction xs arbitrary: cur) (auto split: option.splits node.splits)

lemma walk_first_is_dir:
  "cs \<noteq> [] \<Longrightarrow> walk fs cur cs = Inr t \<Longrightarrow> node_at fs cur = Some Dir"
  by (cases cs) (auto split: option.splits node.splits)


subsection \<open>Normalised paths\<close>


lemma norm_comps_elems:
  "x \<in> set (norm_comps sl new_comps cs) \<Longrightarrow> x \<in> set new_comps \<or> (x \<in> set cs \<and> x \<noteq> [] \<and> x \<noteq> ''.'')"
proof (induction cs arbitrary: new_comps)
  case Nil
  then show ?case by simp
next
  case (Cons c cs)
  show ?case
  proof (cases "c = [] \<or> c = ''.''")
    case True
    with Cons show ?thesis by auto
  next
    case skip: False
    show ?thesis
    proof (cases "c \<noteq> ''..'' \<or> (\<not> sl \<and> new_comps = []) \<or> (new_comps \<noteq> [] \<and> last new_comps = ''..'')")
      case True
      with skip Cons.prems have "x \<in> set (norm_comps sl (new_comps @ [c]) cs)" by simp
      from Cons.IH [OF this] skip show ?thesis by auto
    next
      case False
      show ?thesis
      proof (cases "new_comps = []")
        case True
        with skip False Cons.prems have "x \<in> set (norm_comps sl new_comps cs)" by simp
        from Cons.IH [OF this] show ?thesis by auto
      next
        case ne: False
        with skip False Cons.prems have "x \<in> set (norm_comps sl (butlast new_comps) cs)" by simp
        from Cons.IH [OF this] show ?thesis by (auto dest: in_set_butlastD)
      qed
    qed
  qed
qed

lemma join_with_eq_Nil: "join_with sep cs = [] \<Longrightarrow> cs = [] \<or> cs = [[]]"
  by (induction sep cs rule: join_with.induct) auto


subsection \<open>Joining paths and resolving them\<close>

lemma path_join_rel:
  "d \<noteq> [] \<Longrightarrow> \<not> prefix ''/'' n \<Longrightarrow>
   path_join d n = (if last d = CHR ''/'' then d @ n else d @ ''/'' @ n)"
  by (simp add: path_join_def)

lemma path_join_assoc:
  assumes "d \<noteq> []" and "\<not> prefix ''/'' n"
  shows "path_join r (path_join d n) = path_join (path_join r d) n"
proof (cases "prefix ''/'' d")
  case True
  then have "prefix ''/'' (path_join d n)"
    using assms by (cases d) (auto simp: path_join_rel)
  with True show ?thesis by (simp add: path_join_def)
next
  case False
  then have "\<not> prefix ''/'' (path_join d n)"
    using assms by (cases d) (auto simp: path_join_rel)
  with False assms show ?thesis
    by (auto simp: path_join_def)
qed

lemma path_join_nonempty: "d \<noteq> [] \<Longrightarrow> path_join r d \<noteq> []"
  by (auto simp: path_join_def)

lemma walk_snoc_empty:
  "walk fs s (X @ [[]]) = Inr r \<longleftrightarrow> walk fs s X = Inr r \<and> node_at fs r = Some Dir"
  by (auto simp: walk_append split: sum.splits option.splits node.splits)

lemma walk_append_Inr:
  "walk fs s (X @ Y) = Inr q \<longleftrightarrow> (\<exists>r. walk fs s X = Inr r \<and> walk fs r Y = Inr q)"
  by (auto simp: walk_append split: sum.splits)

text \<open>The components of a joined path: those of the directory, then those of the relative
  part. A directory written with a trailing slash has an empty last component.\<close>

lemma split_path_join:
  assumes "D \<noteq> []" and "\<not> prefix ''/'' n"
  shows "\<exists>X. split_on CHR ''/'' (path_join D n) = X @ split_on CHR ''/'' n
           \<and> (split_on CHR ''/'' D = X \<or> split_on CHR ''/'' D = X @ [[]])"
proof (cases "last D = CHR ''/''")
  case True
  with assms(1) obtain D0 where D: "D = D0 @ ''/''"
    by (metis append_butlast_last_id)
  have "split_on CHR ''/'' (path_join D n) = split_on CHR ''/'' D0 @ split_on CHR ''/'' n"
    using assms True D by (simp add: path_join_rel split_on_append_sep)
  moreover have "split_on CHR ''/'' D = split_on CHR ''/'' D0 @ [[]]"
    using D by (simp add: split_on_snoc_sep)
  ultimately show ?thesis by blast
next
  case False
  then have "split_on CHR ''/'' (path_join D n) = split_on CHR ''/'' D @ split_on CHR ''/'' n"
    using assms by (simp add: path_join_rel split_on_append_sep)
  then show ?thesis by blast
qed

lemma path_join_hd: "D \<noteq> [] \<Longrightarrow> \<not> prefix ''/'' n \<Longrightarrow> hd (path_join D n) = hd D"
  by (cases D) (auto simp: path_join_rel)

lemma path_join_nul:
  "D \<noteq> [] \<Longrightarrow> \<not> prefix ''/'' n \<Longrightarrow>
   CHR 0x00 \<in> set (path_join D n) \<longleftrightarrow> CHR 0x00 \<in> set D \<or> CHR 0x00 \<in> set n"
  by (auto simp: path_join_rel)

text \<open>Resolving a joined path is resolving the directory and walking on from there.\<close>

lemma stat_path_join:
  assumes "D \<noteq> []" and "\<not> prefix ''/'' n"
  shows "stat fs cwd (path_join D n) = Inr (q, nd) \<longleftrightarrow>
         CHR 0x00 \<notin> set n \<and>
         (\<exists>r. stat fs cwd D = Inr (r, Dir) \<and> walk fs r (split_on CHR ''/'' n) = Inr q
              \<and> node_at fs q = Some nd)"
proof -
  obtain X where X: "split_on CHR ''/'' (path_join D n) = X @ split_on CHR ''/'' n"
    and XD: "split_on CHR ''/'' D = X \<or> split_on CHR ''/'' D = X @ [[]]"
    using split_path_join [OF assms] by blast
  define s where "s = (if hd D = CHR ''/'' then [] else cwd)"
  have ne: "path_join D n \<noteq> []"
    using assms by (auto simp: path_join_rel)
  have sn: "split_on CHR ''/'' n \<noteq> []" by (rule split_on_nonempty)
  have dir: "\<And>r. walk fs s (split_on CHR ''/'' D) = Inr r \<and> node_at fs r = Some Dir
      \<longleftrightarrow> walk fs s X = Inr r \<and> node_at fs r = Some Dir"
    using XD by (auto simp: walk_snoc_empty)
  have statD: "\<And>r. stat fs cwd D = Inr (r, Dir) \<longleftrightarrow>
      CHR 0x00 \<notin> set D \<and> walk fs s (split_on CHR ''/'' D) = Inr r \<and> node_at fs r = Some Dir"
    using assms(1) by (auto simp: stat_def s_def split: sum.splits option.splits)
  have "stat fs cwd (path_join D n) = Inr (q, nd) \<longleftrightarrow>
      CHR 0x00 \<notin> set (path_join D n) \<and> walk fs s (X @ split_on CHR ''/'' n) = Inr q
        \<and> node_at fs q = Some nd"
    using ne X path_join_hd [OF assms]
    by (auto simp: stat_def s_def split: sum.splits option.splits)
  also have "\<dots> \<longleftrightarrow> CHR 0x00 \<notin> set D \<and> CHR 0x00 \<notin> set n
      \<and> (\<exists>r. walk fs s X = Inr r \<and> node_at fs r = Some Dir
             \<and> walk fs r (split_on CHR ''/'' n) = Inr q) \<and> node_at fs q = Some nd"
    using path_join_nul [OF assms] walk_first_is_dir [OF sn]
    by (auto simp: walk_append_Inr)
  also have "\<dots> \<longleftrightarrow> CHR 0x00 \<notin> set n \<and>
         (\<exists>r. stat fs cwd D = Inr (r, Dir) \<and> walk fs r (split_on CHR ''/'' n) = Inr q
              \<and> node_at fs q = Some nd)"
    using dir statD by blast
  finally show ?thesis .
qed

lemma path_join_abs: "prefix ''/'' b \<Longrightarrow> path_join a b = b"
  by (simp add: path_join_def)



subsection \<open>Normalising a path does not change what it names\<close>

lemma walk_skip:
  assumes "\<And>cur r. walk fs cur ys = Inr r \<Longrightarrow> r = cur"
    and "walk fs q (xs @ ys @ zs) = Inr t"
  shows "walk fs q (xs @ zs) = Inr t"
  using assms by (auto simp: walk_append_Inr)

lemma walk_noop_dot: "c = [] \<or> c = ''.'' \<Longrightarrow> walk fs cur [c] = Inr r \<Longrightarrow> r = cur"
  by (auto split: option.splits node.splits)

lemma walk_noop_updown:
  "x \<noteq> [] \<Longrightarrow> x \<noteq> ''.'' \<Longrightarrow> x \<noteq> ''..'' \<Longrightarrow> walk fs cur [x, ''..''] = Inr r \<Longrightarrow> r = cur"
  by (auto split: option.splits node.splits if_splits)

lemma walk_norm_comps:
  "(\<And>x. x \<in> set acc \<Longrightarrow> x \<noteq> [] \<and> x \<noteq> ''.'') \<Longrightarrow> walk fs q (acc @ cs) = Inr t \<Longrightarrow>
   walk fs q (norm_comps False acc cs) = Inr t"
proof (induction cs arbitrary: acc)
  case Nil
  then show ?case by simp
next
  case (Cons c cs)
  show ?case
  proof (cases "c = [] \<or> c = ''.''")
    case True
    have "walk fs q (acc @ cs) = Inr t"
    proof (rule walk_skip [where ys = "[c]"])
      show "\<And>cur r. walk fs cur [c] = Inr r \<Longrightarrow> r = cur"
        using True by (rule walk_noop_dot)
      show "walk fs q (acc @ [c] @ cs) = Inr t" using Cons.prems(2) by simp
    qed
    with Cons.IH [of acc] Cons.prems(1) True show ?thesis by simp
  next
    case skip: False
    show ?thesis
    proof (cases "c \<noteq> ''..'' \<or> acc = [] \<or> last acc = ''..''")
      case True
      have "walk fs q (norm_comps False (acc @ [c]) cs) = Inr t"
        using Cons.prems skip by (intro Cons.IH) auto
      with skip True show ?thesis by auto
    next
      case False
      then have ne: "acc \<noteq> []" and c: "c = ''..''" and l: "last acc \<noteq> ''..''" by auto
      have lp: "last acc \<noteq> [] \<and> last acc \<noteq> ''.''"
        using Cons.prems(1) [of "last acc"] ne by simp
      have "walk fs q (butlast acc @ cs) = Inr t"
      proof (rule walk_skip [where ys = "[last acc, ''..'']"])
        show "\<And>cur r. walk fs cur [last acc, ''..''] = Inr r \<Longrightarrow> r = cur"
          using lp l walk_noop_updown [of "last acc"] by blast
        have "acc @ c # cs = (butlast acc @ [last acc]) @ ''..'' # cs"
          using ne c by simp
        then have "acc @ c # cs = butlast acc @ [last acc, ''..''] @ cs"
          by simp
        with Cons.prems(2) show "walk fs q (butlast acc @ [last acc, ''..''] @ cs) = Inr t"
          by simp
      qed
      moreover have "\<And>x. x \<in> set (butlast acc) \<Longrightarrow> x \<noteq> [] \<and> x \<noteq> ''.''"
        using Cons.prems(1) by (auto dest: in_set_butlastD)
      ultimately have "walk fs q (norm_comps False (butlast acc) cs) = Inr t"
        by (intro Cons.IH) auto
      with skip False ne show ?thesis by auto
    qed
  qed
qed

lemma split_on_subset: "x \<in> set (split_on sep s) \<Longrightarrow> set x \<subseteq> set s"
proof (induction s arbitrary: x)
  case Nil
  then show ?case by simp
next
  case (Cons a s)
  obtain p ps where r: "split_on sep s = p # ps"
    using split_on_nonempty [of sep s] by (cases "split_on sep s") auto
  have p: "set p \<subseteq> set s" and ps: "\<And>y. y \<in> set ps \<Longrightarrow> set y \<subseteq> set s"
    using Cons.IH r by auto
  show ?case
  proof (cases "a = sep")
    case True
    with Cons.prems r p ps show ?thesis by auto
  next
    case False
    with Cons.prems r have "x = a # p \<or> x \<in> set ps" by simp
    with p ps show ?thesis by auto
  qed
qed

lemma join_with_subset:
  "set (join_with sep cs) \<subseteq> insert sep (\<Union>x \<in> set cs. set x)"
  by (induction sep cs rule: join_with.induct) auto

text \<open>For a relative file name that \<open>safe_join\<close> accepts, the normalised name resolves to
  whatever the name itself resolves to.\<close>

lemma stat_normpath:
  assumes D: "D \<noteq> []" and f: "f \<noteq> []" "\<not> prefix ''/'' f"
    and st: "stat fs cwd (path_join D f) = Inr (q, nd)"
  shows "stat fs cwd (path_join D (normpath f)) = Inr (q, nd)"
proof -
  define r where "r = norm_comps False [] (split_on CHR ''/'' f)"
  define n where "n = normpath f"
  have n: "n = (if join_with CHR ''/'' r = [] then ''.'' else join_with CHR ''/'' r)"
    using f by (simp add: n_def r_def normpath_def Let_def)
  have el: "\<And>x. x \<in> set r \<Longrightarrow> x \<noteq> [] \<and> x \<noteq> ''.'' \<and> CHR ''/'' \<notin> set x \<and> set x \<subseteq> set f"
    using norm_comps_elems [of _ False "[]" "split_on CHR ''/'' f"]
      split_on_no_sep [of _ "CHR ''/''" f] split_on_subset [of _ "CHR ''/''" f]
    by (auto simp: r_def)
  from st obtain d where nul: "CHR 0x00 \<notin> set f" and d: "stat fs cwd D = Inr (d, Dir)"
    and w: "walk fs d (split_on CHR ''/'' f) = Inr q" and node: "node_at fs q = Some nd"
    using stat_path_join [OF D f(2)] by blast
  have wr: "walk fs d r = Inr q"
    unfolding r_def using w by (intro walk_norm_comps) auto
  have ddir: "node_at fs d = Some Dir"
    using w split_on_nonempty by (rule walk_first_is_dir [rotated])
  have rel: "\<not> prefix ''/'' n"
  proof (cases r)
    case Nil
    with n show ?thesis by simp
  next
    case (Cons x xs)
    with el [of x] have "x \<noteq> []" "CHR ''/'' \<notin> set x" by auto
    then have "hd (join_with CHR ''/'' r) \<noteq> CHR ''/''" "join_with CHR ''/'' r \<noteq> []"
      unfolding Cons by (cases x; cases xs; auto)+
    with n show ?thesis by (cases "join_with CHR ''/'' r") auto
  qed
  have nnul: "CHR 0x00 \<notin> set n"
  proof (cases "join_with CHR ''/'' r = []")
    case True
    with n show ?thesis by simp
  next
    case False
    with n have "set n \<subseteq> insert CHR ''/'' (\<Union>x \<in> set r. set x)"
      using join_with_subset [of "CHR ''/''" r] by simp
    also have "\<dots> \<subseteq> insert CHR ''/'' (set f)" using el by auto
    finally show ?thesis using nul by auto
  qed
  have wn: "walk fs d (split_on CHR ''/'' n) = Inr q"
  proof (cases "r = []")
    case True
    with n wr ddir show ?thesis by simp
  next
    case False
    then have "join_with CHR ''/'' r \<noteq> []"
      using join_with_eq_Nil [of "CHR ''/''" r] el by (cases r) auto
    with n have "n = join_with CHR ''/'' r" by simp
    moreover have "split_on CHR ''/'' (join_with CHR ''/'' r) = r"
      using False el by (intro split_on_join_with) auto
    ultimately show ?thesis using wr by simp
  qed
  show ?thesis
    unfolding n_def [symmetric]
    using stat_path_join [OF D rel, of fs cwd q nd] nnul d wn node by blast
qed

subsection \<open>The cross-origin setting\<close>

text \<open>
  C5 (as amended). The value \<open>*\<close>, and an unset variable, give the wildcard policy. Any other
  value is cut at every comma into the ordered list of the pieces between the commas: the pieces
  joined by commas are the value again, there is one piece more than there are commas, and no
  piece holds a comma. Nothing is trimmed and empty pieces stay.
  \<open>https://a.com,https://b.com\<close> gives exactly the two origins.
\<close>

theorem cors_origins_pieces:
  "(env ''CORS_ORIGINS'' = None \<or> env ''CORS_ORIGINS'' = Some ''*''
      \<longrightarrow> cors_origins env = Wildcard)
   \<and> (env ''CORS_ORIGINS'' = Some v \<and> v \<noteq> ''*''
      \<longrightarrow> (\<exists>ps. cors_origins env = Origins ps
             \<and> join_with CHR '','' ps = v
             \<and> length ps = Suc (length (filter (\<lambda>c. c = CHR '','') v))
             \<and> (\<forall>p \<in> set ps. CHR '','' \<notin> set p)))
   \<and> cors_origins [''CORS_ORIGINS'' \<mapsto> ''https://a.com,https://b.com'']
       = Origins [''https://a.com'', ''https://b.com'']"
proof (intro conjI impI)
  assume "env ''CORS_ORIGINS'' = None \<or> env ''CORS_ORIGINS'' = Some ''*''"
  then show "cors_origins env = Wildcard"
    by (auto simp: cors_origins_def getenv_default_def)
next
  assume a: "env ''CORS_ORIGINS'' = Some v \<and> v \<noteq> ''*''"
  then have "cors_origins env = Origins (split_on CHR '','' v)"
    by (simp add: cors_origins_def getenv_default_def)
  then show "\<exists>ps. cors_origins env = Origins ps
             \<and> join_with CHR '','' ps = v
             \<and> length ps = Suc (length (filter (\<lambda>c. c = CHR '','') v))
             \<and> (\<forall>p \<in> set ps. CHR '','' \<notin> set p)"
    by (simp add: join_split_on length_split_on split_on_no_sep)
next
  show "cors_origins [''CORS_ORIGINS'' \<mapsto> ''https://a.com,https://b.com'']
       = Origins [''https://a.com'', ''https://b.com'']"
    by (simp add: cors_origins_def getenv_default_def)
qed

theorem cors_origins_pieces_witness:
  "\<exists>ps. cors_origins [''CORS_ORIGINS'' \<mapsto> ''a,b''] = Origins ps
        \<and> join_with CHR '','' ps = ''a,b'' \<and> length ps = 2"
  using cors_origins_pieces [of "[''CORS_ORIGINS'' \<mapsto> ''a,b'']" "''a,b''"]
  by (auto simp: numeral_2_eq_2)

text \<open>The claim as stated fails: a leading comma leaves an empty entry, and the blank after a
  comma stays in the origin.\<close>

theorem cors_origins_keeps_empty_and_blank:
  "cors_origins [''CORS_ORIGINS'' \<mapsto> '',https://a.com, https://b.com'']
     = Origins ['''', ''https://a.com'', '' https://b.com'']"
  by (simp add: cors_origins_def getenv_default_def)

subsection \<open>Settings\<close>

text \<open>
  C8 (as amended). Every setting is read from its environment variable, and the default is used
  only when the variable is unset: a variable set to the empty string overrides the default with
  the empty string (secret key, upload, certificate and frontend directories, connection
  string), gives the one-element origin list (cross-origin setting), and leaves the debug flag
  off. The port is \<open>int(...)\<close> of the variable whenever it is set, so that it raises for the
  empty string as \<open>int('')\<close> does, and 5000 only when the variable is unset. The explicit
  database name is the one setting for which the empty string counts as unset.
\<close>

theorem settings_from_environment:
  "JWT_SECRET_KEY (create_app_config cwd env)
     = (case env ''JWT_SECRET_KEY'' of None \<Rightarrow> ''dev-secret-change-me'' | Some v \<Rightarrow> v)
   \<and> UPLOAD_DIR (create_app_config cwd env)
     = (case env ''UPLOAD_DIR'' of None \<Rightarrow> ''uploads'' | Some v \<Rightarrow> v)
   \<and> CERT_DIR (create_app_config cwd env)
     = (case env ''CERT_DIR'' of None \<Rightarrow> ''certs'' | Some v \<Rightarrow> v)
   \<and> FRONTEND_DIR (create_app_config cwd env)
     = (case env ''FRONTEND_DIR'' of
          None \<Rightarrow> path_join (path_join cwd ''frontend'') ''dist'' | Some v \<Rightarrow> v)
   \<and> cors_origins env
     = (case env ''CORS_ORIGINS'' of
          None \<Rightarrow> Wildcard
        | Some v \<Rightarrow> if v = ''*'' then Wildcard else Origins (split_on CHR '','' v))
   \<and> listen_port int_of_string env
     = (case env ''PORT'' of None \<Rightarrow> Inr 5000 | Some v \<Rightarrow> int_of_string v)
   \<and> (int_of_string '''' = Inl ValueError
        \<longrightarrow> listen_port int_of_string (env(''PORT'' \<mapsto> '''')) = Inl ValueError)
   \<and> debug_flag env = (case env ''FLASK_DEBUG'' of None \<Rightarrow> False | Some v \<Rightarrow> lower v = ''true'')
   \<and> mongo_uri_setting env
     = (case env ''MONGO_URI'' of None \<Rightarrow> ''mongodb://localhost:27017/verdantia'' | Some v \<Rightarrow> v)
   \<and> mongo_db_setting env = env ''MONGO_DB''
   \<and> init_db check_rest (env(''MONGO_DB'' \<mapsto> ''''))
     = init_db check_rest (env(''MONGO_DB'' := None))"
proof -
  have port: "listen_port int_of_string env
      = (case env ''PORT'' of None \<Rightarrow> Inr 5000 | Some v \<Rightarrow> int_of_string v)"
    by (simp add: listen_port_def getenv_def)
  have empty: "int_of_string '''' = Inl ValueError
      \<longrightarrow> listen_port int_of_string (env(''PORT'' \<mapsto> '''')) = Inl ValueError"
    by (simp add: listen_port_def getenv_def)
  have debug: "debug_flag env
      = (case env ''FLASK_DEBUG'' of None \<Rightarrow> False | Some v \<Rightarrow> lower v = ''true'')"
    by (simp add: debug_flag_def getenv_default_def lower_def lower_char_def
        split: option.splits)
  have cors: "cors_origins env
     = (case env ''CORS_ORIGINS'' of
          None \<Rightarrow> Wildcard
        | Some v \<Rightarrow> if v = ''*'' then Wildcard else Origins (split_on CHR '','' v))"
    by (simp add: cors_origins_def getenv_default_def split: option.splits)
  have db: "init_db check_rest (env(''MONGO_DB'' \<mapsto> ''''))
     = init_db check_rest (env(''MONGO_DB'' := None))"
    by (simp add: init_db_def mongo_uri_setting_def mongo_db_setting_def getenv_def
        getenv_default_def Let_def cong: sum.case_cong)
  show ?thesis
    using port empty debug cors db
    by (simp add: create_app_config_def getenv_default_def mongo_uri_setting_def
        mongo_db_setting_def getenv_def)
qed

theorem settings_from_environment_witness:
  "UPLOAD_DIR (create_app_config ''/srv/app'' [''UPLOAD_DIR'' \<mapsto> ''/data/up'', ''PORT'' \<mapsto> ''8080''])
     = ''/data/up''
   \<and> CERT_DIR (create_app_config ''/srv/app'' [''UPLOAD_DIR'' \<mapsto> ''/data/up'', ''PORT'' \<mapsto> ''8080''])
     = ''certs''
   \<and> FRONTEND_DIR (create_app_config ''/srv/app'' [''UPLOAD_DIR'' \<mapsto> ''/data/up'', ''PORT'' \<mapsto> ''8080''])
     = ''/srv/app/frontend/dist''
   \<and> listen_port (\<lambda>s. if s = ''8080'' then Inr 8080 else Inl ValueError)
       [''UPLOAD_DIR'' \<mapsto> ''/data/up'', ''PORT'' \<mapsto> ''8080''] = Inr 8080
   \<and> listen_port (\<lambda>s. if s = ''8080'' then Inr 8080 else Inl ValueError)
       [''UPLOAD_DIR'' \<mapsto> ''/data/up'', ''PORT'' \<mapsto> ''''] = Inl ValueError"
  using settings_from_environment
    [of "''/srv/app''" "[''UPLOAD_DIR'' \<mapsto> ''/data/up'', ''PORT'' \<mapsto> ''8080'']"
        "\<lambda>s. if s = ''8080'' then Inr 8080 else Inl ValueError" "\<lambda>_. None"]
  by (simp add: path_join_def)

text \<open>The claim as stated fails for a variable that is set to the empty string: the upload
  directory is then the empty string, not the default.\<close>

theorem empty_upload_dir_overrides_default:
  "UPLOAD_DIR (create_app_config ''/srv/app'' [''UPLOAD_DIR'' \<mapsto> '''']) = ''''"
  by (simp add: create_app_config_def getenv_default_def)

subsection \<open>Database initialisation\<close>

text \<open>
  C10. With \<open>MONGO_URI\<close> unset \<open>_init_db\<close> connects to
  \<open>mongodb://localhost:27017/verdantia\<close>, and with \<open>MONGO_DB\<close> unset as well it selects the
  database \<open>verdantia\<close>, the one that connection string names. A \<open>MONGO_DB\<close> that is set and
  not empty is the database selected. An empty \<open>MONGO_DB\<close> is treated as unset: the database is
  then the one named by the connection string, for instance \<open>inventory\<close> for
  \<open>mongodb://h/inventory\<close>.
\<close>

theorem init_db_defaults:
  "(env ''MONGO_URI'' = None \<longrightarrow> mongo_uri_setting env = ''mongodb://localhost:27017/verdantia'')
   \<and> (check_rest ''mongodb://localhost:27017/verdantia'' = None
        \<and> env ''MONGO_URI'' = None \<and> (env ''MONGO_DB'' = None \<or> env ''MONGO_DB'' = Some '''')
      \<longrightarrow> init_db check_rest env
            = Inr (\<lparr>default_database_name = Some ''verdantia''\<rparr>, ''verdantia''))
   \<and> (env ''MONGO_DB'' = Some name \<and> name \<noteq> ''''
        \<and> MongoClient check_rest (mongo_uri_setting env) = Inr client
      \<longrightarrow> init_db check_rest env
            = (case Database name of Inl e \<Rightarrow> Inl e | Inr db \<Rightarrow> Inr (client, db)))
   \<and> ((env ''MONGO_DB'' = None \<or> env ''MONGO_DB'' = Some '''')
        \<and> MongoClient check_rest (mongo_uri_setting env) = Inr client
        \<and> default_database_name client = Some uri_name
      \<longrightarrow> parse_uri_database (mongo_uri_setting env) = Inr (Some uri_name)
          \<and> init_db check_rest env
              = (case Database uri_name of Inl e \<Rightarrow> Inl e | Inr db \<Rightarrow> Inr (client, db)))
   \<and> init_db (\<lambda>uri. None) [''MONGO_URI'' \<mapsto> ''mongodb://h/inventory'', ''MONGO_DB'' \<mapsto> '''']
       = Inr (\<lparr>default_database_name = Some ''inventory''\<rparr>, ''inventory'')
   \<and> init_db check_rest (env(''MONGO_DB'' \<mapsto> ''''))
       = init_db check_rest (env(''MONGO_DB'' := None))"
proof (intro conjI impI)
  show "mongo_uri_setting env = ''mongodb://localhost:27017/verdantia''"
    if "env ''MONGO_URI'' = None"
    using that by (simp add: mongo_uri_setting_def getenv_default_def)
next
  assume a: "check_rest ''mongodb://localhost:27017/verdantia'' = None
      \<and> env ''MONGO_URI'' = None \<and> (env ''MONGO_DB'' = None \<or> env ''MONGO_DB'' = Some '''')"
  then have uri: "mongo_uri_setting env = ''mongodb://localhost:27017/verdantia''"
    by (simp add: mongo_uri_setting_def getenv_default_def)
  have parse: "parse_uri_database ''mongodb://localhost:27017/verdantia'' = Inr (Some ''verdantia'')"
    by (simp add: parse_uri_database_def parse_scheme_free_def partition_on_def
        parse_dbase_def unquote_plus_def)
  have client: "MongoClient check_rest ''mongodb://localhost:27017/verdantia''
      = Inr \<lparr>default_database_name = Some ''verdantia''\<rparr>"
    using a parse by (simp add: MongoClient_def)
  have db: "get_default_database \<lparr>default_database_name = Some ''verdantia''\<rparr>
      = Inr (Some ''verdantia'')"
    by (simp add: get_default_database_def Database_def)
  have unset: "\<not> (mongo_db_setting env \<noteq> None \<and> mongo_db_setting env \<noteq> Some [])"
    using a by (auto simp add: mongo_db_setting_def getenv_def)
  show "init_db check_rest env
      = Inr (\<lparr>default_database_name = Some ''verdantia''\<rparr>, ''verdantia'')"
    using unset uri client db by (auto simp add: init_db_def Let_def)
next
  assume a: "env ''MONGO_DB'' = Some name \<and> name \<noteq> ''''
      \<and> MongoClient check_rest (mongo_uri_setting env) = Inr client"
  then show "init_db check_rest env
      = (case Database name of Inl e \<Rightarrow> Inl e | Inr db \<Rightarrow> Inr (client, db))"
    by (simp add: init_db_def mongo_db_setting_def getenv_def Let_def)
next
  assume a: "(env ''MONGO_DB'' = None \<or> env ''MONGO_DB'' = Some '''')
      \<and> MongoClient check_rest (mongo_uri_setting env) = Inr client
      \<and> default_database_name client = Some uri_name"
  have slash: "CHR ''/'' \<in> set (mongo_uri_setting env)"
  proof (rule ccontr)
    assume "CHR ''/'' \<notin> set (mongo_uri_setting env)"
    then have "default_database_name client = None"
      using a by (auto simp add: MongoClient_def split: option.splits)
    then show False using a by simp
  qed
  then show "parse_uri_database (mongo_uri_setting env) = Inr (Some uri_name)"
    using a by (auto simp add: MongoClient_def split: sum.splits option.splits)
  have unset: "\<not> (mongo_db_setting env \<noteq> None \<and> mongo_db_setting env \<noteq> Some [])"
    using a by (auto simp add: mongo_db_setting_def getenv_def)
  have db: "get_default_database client
      = (case Database uri_name of Inl e \<Rightarrow> Inl e | Inr db \<Rightarrow> Inr (Some db))"
    using a by (simp add: get_default_database_def)
  show "init_db check_rest env
      = (case Database uri_name of Inl e \<Rightarrow> Inl e | Inr db \<Rightarrow> Inr (client, db))"
    using a unset db by (auto simp add: init_db_def Let_def split: sum.splits)
next
  show "init_db (\<lambda>uri. None) [''MONGO_URI'' \<mapsto> ''mongodb://h/inventory'', ''MONGO_DB'' \<mapsto> '''']
       = Inr (\<lparr>default_database_name = Some ''inventory''\<rparr>, ''inventory'')"
    by (simp add: init_db_def mongo_uri_setting_def mongo_db_setting_def getenv_def
        getenv_default_def MongoClient_def parse_uri_database_def parse_scheme_free_def
        partition_on_def parse_dbase_def unquote_plus_def get_default_database_def
        Database_def Let_def)
next
  show "init_db check_rest (env(''MONGO_DB'' \<mapsto> ''''))
       = init_db check_rest (env(''MONGO_DB'' := None))"
    by (simp add: init_db_def mongo_uri_setting_def mongo_db_setting_def getenv_def
        getenv_default_def Let_def cong: sum.case_cong)
qed

theorem init_db_defaults_witness:
  "mongo_uri_setting Map.empty = ''mongodb://localhost:27017/verdantia''
   \<and> init_db (\<lambda>uri. None) Map.empty
       = Inr (\<lparr>default_database_name = Some ''verdantia''\<rparr>, ''verdantia'')
   \<and> init_db (\<lambda>uri. None) [''MONGO_URI'' \<mapsto> ''mongodb://h/inventory'', ''MONGO_DB'' \<mapsto> ''stock'']
       = Inr (\<lparr>default_database_name = Some ''inventory''\<rparr>, ''stock'')
   \<and> init_db (\<lambda>uri. None) [''MONGO_URI'' \<mapsto> ''mongodb://h/inventory'']
       = Inr (\<lparr>default_database_name = Some ''inventory''\<rparr>, ''inventory'')"
proof -
  have client: "MongoClient (\<lambda>uri. None) ''mongodb://h/inventory''
      = Inr \<lparr>default_database_name = Some ''inventory''\<rparr>"
    by (simp add: MongoClient_def parse_uri_database_def parse_scheme_free_def
        partition_on_def parse_dbase_def unquote_plus_def)
  note t = init_db_defaults [of Map.empty "\<lambda>uri. None"]
  note u = init_db_defaults
    [of "[''MONGO_URI'' \<mapsto> ''mongodb://h/inventory'', ''MONGO_DB'' \<mapsto> ''stock'']"
        "\<lambda>uri. None" "''stock''" "\<lparr>default_database_name = Some ''inventory''\<rparr>"]
  note v = init_db_defaults
    [of "[''MONGO_URI'' \<mapsto> ''mongodb://h/inventory'']"
        "\<lambda>uri. None" _ "\<lparr>default_database_name = Some ''inventory''\<rparr>" "''inventory''"]
  have 1: "mongo_uri_setting Map.empty = ''mongodb://localhost:27017/verdantia''"
    using t by simp
  have 2: "init_db (\<lambda>uri. None) Map.empty
       = Inr (\<lparr>default_database_name = Some ''verdantia''\<rparr>, ''verdantia'')"
    using t by simp
  have uri: "mongo_uri_setting [''MONGO_URI'' \<mapsto> ''mongodb://h/inventory'', ''MONGO_DB'' \<mapsto> ''stock'']
      = ''mongodb://h/inventory''"
    "mongo_uri_setting [''MONGO_URI'' \<mapsto> ''mongodb://h/inventory''] = ''mongodb://h/inventory''"
    by (simp_all add: mongo_uri_setting_def getenv_default_def)
  have 3: "init_db (\<lambda>uri. None) [''MONGO_URI'' \<mapsto> ''mongodb://h/inventory'', ''MONGO_DB'' \<mapsto> ''stock'']
       = Inr (\<lparr>default_database_name = Some ''inventory''\<rparr>, ''stock'')"
    using u client uri by (simp add: Database_def)
  have 4: "init_db (\<lambda>uri. None) [''MONGO_URI'' \<mapsto> ''mongodb://h/inventory'']
       = Inr (\<lparr>default_database_name = Some ''inventory''\<rparr>, ''inventory'')"
    using v client uri by (simp add: Database_def)
  show ?thesis using 1 2 3 4 by simp
qed

text \<open>
  C1 (the code departs from the claim). A connection string that names no database, with no
  explicit database name, does not select the default name \<open>verdantia\<close>:
  \<open>get_default_database()\<close> raises before the test \<open>db is None\<close> is reached.
\<close>

theorem init_db_uri_without_name_raises:
  "init_db (\<lambda>uri. None) [''MONGO_URI'' \<mapsto> ''mongodb://localhost:27017'']
     = Inl ConfigurationError"
  by (simp add: init_db_def mongo_uri_setting_def mongo_db_setting_def getenv_def
      getenv_default_def MongoClient_def parse_uri_database_def parse_scheme_free_def
      partition_on_def get_default_database_def Let_def)

subsection \<open>The health probe\<close>

text \<open>
  C2 (as amended). When the ping succeeds the response is 200 with \<open>{ok: true, db: "up"}\<close>.
  When it raises an exception of class \<open>PyMongoError\<close> or of a subclass (among them the
  driver's timeout, connection and authentication failures), the response is 500 with
  \<open>{ok: false, db: "down", error: str(e)}\<close>. An exception of any other class is not caught
  and leaves the view.
\<close>

theorem health_responses:
  "health (Inr reply :: py_exception + 'reply)
     = Inr (Json 200 [(''ok'', JBool True), (''db'', JStr ''up'')])
   \<and> (is_PyMongoError cls \<longrightarrow>
        health (Inl (Exception cls msg) :: py_exception + 'reply)
          = Inr (Json 500 [(''ok'', JBool False), (''db'', JStr ''down''), (''error'', JStr msg)]))
   \<and> (\<not> is_PyMongoError cls \<longrightarrow>
        health (Inl (Exception cls msg) :: py_exception + 'reply) = Inl (Exception cls msg))
   \<and> (\<forall>c \<in> {ServerSelectionTimeoutError, NetworkTimeout, AutoReconnect, ConnectionFailure,
             OperationFailure}. is_PyMongoError c)"
  by (simp add: health_def)

theorem health_responses_witness:
  "health (Inl (Exception ServerSelectionTimeoutError ''localhost:27017: timed out'')
           :: py_exception + unit)
     = Inr (Json 500 [(''ok'', JBool False), (''db'', JStr ''down''),
                      (''error'', JStr ''localhost:27017: timed out'')])
   \<and> health (Inl (Exception ValueError ''x'') :: py_exception + unit)
     = Inl (Exception ValueError ''x'')"
  using health_responses [of "()" ServerSelectionTimeoutError "''localhost:27017: timed out''"]
    health_responses [of "()" ValueError "''x''"]
  by simp

text \<open>The claim as stated fails: an error of the database layer that is not a
  \<open>PyMongoError\<close>, such as \<open>bson.errors.InvalidBSON\<close> for a reply that cannot be decoded,
  escapes the handler.\<close>

theorem health_lets_other_errors_escape:
  "health (Inl (Exception InvalidBSON ''bad reply'') :: py_exception + unit)
     = Inl (Exception InvalidBSON ''bad reply'')"
  by (simp add: health_def)

subsection \<open>Serving uploads, certificates and the frontend\<close>



lemma norm_comps_plain:
  "(\<And>c. c \<in> set cs \<Longrightarrow> c \<noteq> [] \<and> c \<noteq> ''.'' \<and> c \<noteq> ''..'') \<Longrightarrow>
   norm_comps sl acc cs = acc @ cs"
  by (induction cs arbitrary: acc) auto

text \<open>A name whose segments are all ordinary names is its own normal form, and \<open>safe_join\<close>
  appends it to the directory as it is.\<close>

lemma safe_join_plain:
  assumes "\<And>c. c \<in> set (split_on CHR ''/'' name) \<Longrightarrow> c \<noteq> [] \<and> c \<noteq> ''.'' \<and> c \<noteq> ''..''"
  shows "safe_join directory name
       = Some (path_join (if directory = [] then ''.'' else directory) name)"
    and "name \<noteq> []" and "\<not> prefix ''/'' name"
proof -
  show ne: "name \<noteq> []" using assms [of "[]"] by auto
  show rel: "\<not> prefix ''/'' name"
  proof
    assume "prefix ''/'' name"
    then obtain rest where "name = CHR ''/'' # rest" by (cases name) auto
    then have "[] \<in> set (split_on CHR ''/'' name)" by simp
    with assms show False by blast
  qed
  have n: "normpath name = name"
    using ne rel assms
    by (simp add: normpath_def Let_def norm_comps_plain join_split_on)
  have "name \<noteq> ''..''" using assms [of "''..''"] by auto
  moreover have "\<not> prefix ''../'' name"
  proof
    assume "prefix ''../'' name"
    then obtain rest where "name = ''..'' @ CHR ''/'' # rest"
      by (auto simp: prefix_def)
    then have "split_on CHR ''/'' name = split_on CHR ''/'' ''..'' @ split_on CHR ''/'' rest"
      by (simp only: split_on_append_sep)
    then have "''..'' \<in> set (split_on CHR ''/'' name)" by simp
    with assms show False by blast
  qed
  ultimately show "safe_join directory name
       = Some (path_join (if directory = [] then ''.'' else directory) name)"
    using ne rel n by (simp add: safe_join_def)
qed

lemma safe_join_normpath:
  assumes "safe_join directory f = Some p" and "f \<noteq> []"
  shows "p = path_join (if directory = [] then ''.'' else directory) (normpath f)"
    and "\<not> prefix ''/'' (normpath f)" and "\<not> prefix ''/'' f"
proof -
  show "p = path_join (if directory = [] then ''.'' else directory) (normpath f)"
    and rel: "\<not> prefix ''/'' (normpath f)"
    using assms by (auto simp: safe_join_def Let_def split: if_splits)
  show "\<not> prefix ''/'' f"
  proof
    assume "prefix ''/'' f"
    then have "prefix ''/'' (normpath f)"
      using assms(2) by (auto simp: normpath_def Let_def numeral_2_eq_2)
    with rel show False ..
  qed
qed

text \<open>When the name stays inside the directory and names a regular file there, that file is
  what \<open>send_from_directory\<close> sends.\<close>

lemma send_from_directory_sends:
  assumes sj: "safe_join directory f \<noteq> None"
    and st: "stat fs cwd (path_join (path_join root (if directory = [] then ''.'' else directory)) f)
               = Inr (q, File b)"
  shows "send_from_directory fs cwd root directory f att = SendFile q b att"
proof -
  define d where "d = (if directory = [] then ''.'' else directory)"
  have dne: "d \<noteq> []" by (simp add: d_def)
  from sj obtain p where p: "safe_join directory f = Some p" by blast
  have "stat fs cwd (path_join root p) = Inr (q, File b)"
  proof (cases "f = []")
    case True
    with p have "p = path_join d []" by (simp add: safe_join_def d_def)
    then have "path_join root p = path_join (path_join root d) []"
      using path_join_assoc [OF dne, of "[]" root] by simp
    with st True show ?thesis by (simp add: d_def)
  next
    case False
    from safe_join_normpath [OF p False]
    have pn: "p = path_join d (normpath f)" and rn: "\<not> prefix ''/'' (normpath f)"
      and rf: "\<not> prefix ''/'' f"
      by (simp_all add: d_def)
    have "stat fs cwd (path_join (path_join root d) (normpath f)) = Inr (q, File b)"
      using st by (intro stat_normpath [OF path_join_nonempty [OF dne] False rf])
        (simp add: d_def)
    moreover have "path_join root p = path_join (path_join root d) (normpath f)"
      unfolding pn by (rule path_join_assoc [OF dne rn])
    ultimately show ?thesis by simp
  qed
  with p show ?thesis by (simp add: send_from_directory_def)
qed













subsection \<open>The SPA fallback\<close>

lemma path_join_abs_left: "prefix ''/'' a \<Longrightarrow> \<not> prefix ''/'' b \<Longrightarrow> prefix ''/'' (path_join a b)"
  by (cases a) (auto simp: path_join_def)

lemma safe_join_index: "d \<noteq> [] \<Longrightarrow> safe_join d ''index.html'' = Some (path_join d ''index.html'')"
  by (simp add: safe_join_def normpath_def)

text \<open>
  C4 (as amended). With an absolute frontend directory: a catch-all path that names an
  existing regular file and stays inside the frontend directory gets that file's bytes; a path
  that names an existing regular file but leaves the frontend directory is answered 404; any
  other path is answered as \<open>/\<close> is. The answer for \<open>/\<close> is the index document when
  \<open>index.html\<close> is a regular file in the frontend directory, 404 when it exists but is a
  directory, and \<open>{error: "frontend_not_built"}\<close> with status 501 when it does not exist.
  The views only read the file system, so the answer is a function of the configuration, the
  file system and the path.
\<close>

theorem spa_fallback:
  "prefix ''/'' (FRONTEND_DIR (app_config a)) \<longrightarrow>
     (stat fs (app_cwd a) (path_join (FRONTEND_DIR (app_config a)) path) = Inr (q, File b)
        \<and> safe_join (FRONTEND_DIR (app_config a)) path \<noteq> None
      \<longrightarrow> spa_catch_all a fs path = SendFile q b False)
   \<and> (isfile fs (app_cwd a) (path_join (FRONTEND_DIR (app_config a)) path)
        \<and> safe_join (FRONTEND_DIR (app_config a)) path = None
      \<longrightarrow> spa_catch_all a fs path = Abort 404)
   \<and> (\<not> isfile fs (app_cwd a) (path_join (FRONTEND_DIR (app_config a)) path)
      \<longrightarrow> spa_catch_all a fs path = spa_root a fs)
   \<and> spa_root a fs
       = (case stat fs (app_cwd a) (path_join (FRONTEND_DIR (app_config a)) ''index.html'') of
            Inl e \<Rightarrow> Json 501 [(''error'', JStr ''frontend_not_built'')]
          | Inr (q', File b') \<Rightarrow> SendFile q' b' False
          | Inr (q', Dir) \<Rightarrow> Abort 404)"
proof (intro impI)
  define FD where "FD = FRONTEND_DIR (app_config a)"
  assume "prefix ''/'' (FRONTEND_DIR (app_config a))"
  then have abs: "prefix ''/'' FD" by (simp add: FD_def)
  then have ne: "FD \<noteq> []" by auto
  have root: "path_join (app_root_path a) (if FD = [] then ''.'' else FD) = FD"
    using abs ne by (simp add: path_join_abs)
  have c1: "spa_catch_all a fs path = SendFile q b False"
    if h: "stat fs (app_cwd a) (path_join FD path) = Inr (q, File b) \<and> safe_join FD path \<noteq> None"
  proof -
    from h have f: "isfile fs (app_cwd a) (path_join FD path)"
      by (simp add: isfile_def)
    have "send_from_directory fs (app_cwd a) (app_root_path a) FD path False = SendFile q b False"
      by (rule send_from_directory_sends) (use h root in simp_all)
    with f show ?thesis by (simp add: spa_catch_all_def FD_def)
  qed
  have c2: "spa_catch_all a fs path = Abort 404"
    if "isfile fs (app_cwd a) (path_join FD path) \<and> safe_join FD path = None"
    using that by (simp add: spa_catch_all_def send_from_directory_def FD_def)
  have c3: "spa_catch_all a fs path = spa_root a fs"
    if "\<not> isfile fs (app_cwd a) (path_join FD path)"
    using that by (simp add: spa_catch_all_def spa_root_def FD_def)
  have idx: "path_join (app_root_path a) (path_join FD ''index.html'') = path_join FD ''index.html''"
    by (rule path_join_abs) (use abs in \<open>simp add: path_join_abs_left\<close>)
  have c4: "spa_root a fs
       = (case stat fs (app_cwd a) (path_join FD ''index.html'') of
            Inl e \<Rightarrow> Json 501 [(''error'', JStr ''frontend_not_built'')]
          | Inr (q', File b') \<Rightarrow> SendFile q' b' False
          | Inr (q', Dir) \<Rightarrow> Abort 404)"
    using idx safe_join_index [OF ne]
    by (simp add: spa_root_def serve_spa_index_def exists_def send_from_directory_def FD_def
        split: sum.splits node.splits prod.splits)
  from c1 c2 c3 c4 show "(stat fs (app_cwd a) (path_join (FRONTEND_DIR (app_config a)) path) = Inr (q, File b)
        \<and> safe_join (FRONTEND_DIR (app_config a)) path \<noteq> None
      \<longrightarrow> spa_catch_all a fs path = SendFile q b False)
   \<and> (isfile fs (app_cwd a) (path_join (FRONTEND_DIR (app_config a)) path)
        \<and> safe_join (FRONTEND_DIR (app_config a)) path = None
      \<longrightarrow> spa_catch_all a fs path = Abort 404)
   \<and> (\<not> isfile fs (app_cwd a) (path_join (FRONTEND_DIR (app_config a)) path)
      \<longrightarrow> spa_catch_all a fs path = spa_root a fs)
   \<and> spa_root a fs
       = (case stat fs (app_cwd a) (path_join (FRONTEND_DIR (app_config a)) ''index.html'') of
            Inl e \<Rightarrow> Json 501 [(''error'', JStr ''frontend_not_built'')]
          | Inr (q', File b') \<Rightarrow> SendFile q' b' False
          | Inr (q', Dir) \<Rightarrow> Abort 404)"
    unfolding FD_def by blast
qed

theorem spa_fallback_witness:
  "spa_catch_all example_app example_fs ''app.js''
     = SendFile [''srv'', ''dist'', ''app.js''] ''js'' False
   \<and> spa_catch_all example_app example_fs ''games'' = spa_root example_app example_fs
   \<and> spa_root example_app example_fs
     = SendFile [''srv'', ''dist'', ''index.html''] ''<html>'' False"
proof -
  have fd: "FRONTEND_DIR (app_config example_app) = ''/srv/dist''"
    by (simp add: example_app_def create_app_config_def getenv_default_def)
  have cwd: "app_cwd example_app = [''srv'']" by (simp add: example_app_def)
  have abs: "prefix ''/'' (FRONTEND_DIR (app_config example_app))" by (simp add: fd)
  have st: "stat example_fs (app_cwd example_app)
      (path_join (FRONTEND_DIR (app_config example_app)) ''app.js'')
      = Inr ([''srv'', ''dist'', ''app.js''], File ''js'')"
    by (simp add: fd cwd path_join_def stat_def node_at_def example_fs_def)
  have sj: "safe_join (FRONTEND_DIR (app_config example_app)) ''app.js'' \<noteq> None"
    by (simp add: fd safe_join_def normpath_def)
  have nf: "\<not> isfile example_fs (app_cwd example_app)
      (path_join (FRONTEND_DIR (app_config example_app)) ''games'')"
    by (simp add: fd cwd isfile_def path_join_def stat_def node_at_def example_fs_def)
  have ix: "stat example_fs (app_cwd example_app)
      (path_join (FRONTEND_DIR (app_config example_app)) ''index.html'')
      = Inr ([''srv'', ''dist'', ''index.html''], File ''<html>'')"
    by (simp add: fd cwd path_join_def stat_def node_at_def example_fs_def)
  note th = spa_fallback [of example_app example_fs _ _ _, THEN mp, OF abs]
  have "spa_catch_all example_app example_fs ''app.js''
     = SendFile [''srv'', ''dist'', ''app.js''] ''js'' False"
    using th [of "''app.js''" "[''srv'', ''dist'', ''app.js'']" "''js''"] st sj by blast
  moreover have "spa_catch_all example_app example_fs ''games'' = spa_root example_app example_fs"
    using th [of "''games''" "[]" "[]"] nf by blast
  moreover have "spa_root example_app example_fs
     = SendFile [''srv'', ''dist'', ''index.html''] ''<html>'' False"
    using th [of "''games''" "[]" "[]", THEN conjunct2, THEN conjunct2, THEN conjunct2] ix
    by simp
  ultimately show ?thesis by simp
qed

text \<open>The claim as stated fails: \<open>../secret.txt\<close> names no file under the frontend directory
  and the index document exists, yet the answer is 404 and not the index document.\<close>

theorem spa_catch_all_traversal_is_404:
  "isfile example_fs (app_cwd example_app)
     (path_join (FRONTEND_DIR (app_config example_app)) ''index.html'')
   \<and> spa_catch_all example_app example_fs ''../secret.txt'' = Abort 404"
  by (simp add: spa_catch_all_def isfile_def send_from_directory_def safe_join_def
      normpath_def example_app_def example_fs_def create_app_config_def getenv_default_def
      path_join_def stat_def node_at_def)

subsection \<open>Routing\<close>

lemma request_path_arg:
  assumes "request_path path_info \<noteq> ''/''" and "CHR 0x0A \<notin> set (request_path path_info)"
  shows "path_arg ''/'' (request_path path_info) = Some (tl (request_path path_info))"
proof -
  define r where "r = dropWhile (\<lambda>c. c = CHR ''/'') path_info"
  have p: "request_path path_info = CHR ''/'' # r"
    by (simp add: request_path_def r_def)
  have ne: "r \<noteq> []" using assms(1) p by simp
  then have "hd r \<noteq> CHR ''/''"
    unfolding r_def using hd_dropWhile [of "\<lambda>c. c = CHR ''/''" path_info] by simp
  moreover have "CHR 0x0A \<notin> set (tl r)"
    using assms(2) p ne by (cases r) auto
  ultimately show ?thesis using p ne by (simp add: path_arg_def)
qed

lemma path_arg_drop: "path_arg pre p = Some a \<Longrightarrow> a = drop (length pre) p"
  by (simp add: path_arg_def Let_def split: if_splits)

lemma own_rule_request_path:
  assumes "CHR 0x0A \<notin> set (request_path path_info)"
  shows "own_rule (request_path path_info)
    = Some (if request_path path_info = ''/health'' then Health
            else if request_path path_info = ''/'' then SpaRoot
            else if path_arg ''/uploads/'' (request_path path_info) \<noteq> None
              then ServeUpload (drop (length ''/uploads/'') (request_path path_info))
            else if path_arg ''/certs/'' (request_path path_info) \<noteq> None
              then ServeCert (drop (length ''/certs/'') (request_path path_info))
            else SpaCatchAll (tl (request_path path_info)))"
proof -
  define p where "p = request_path path_info"
  have root: "path_arg ''/'' p = Some (tl p)" if "p \<noteq> ''/''"
    using request_path_arg [of path_info] assms that by (simp add: p_def)
  have up: "path_arg ''/uploads/'' p = Some (drop (length ''/uploads/'') p)"
    if "path_arg ''/uploads/'' p \<noteq> None"
    using that path_arg_drop [of "''/uploads/''" p] by auto
  have ce: "path_arg ''/certs/'' p = Some (drop (length ''/certs/'') p)"
    if "path_arg ''/certs/'' p \<noteq> None"
    using that path_arg_drop [of "''/certs/''" p] by auto
  have "own_rule p
    = Some (if p = ''/health'' then Health
            else if p = ''/'' then SpaRoot
            else if path_arg ''/uploads/'' p \<noteq> None
              then ServeUpload (drop (length ''/uploads/'') p)
            else if path_arg ''/certs/'' p \<noteq> None
              then ServeCert (drop (length ''/certs/'') p)
            else SpaCatchAll (tl p))"
  proof (cases "p = ''/health'' \<or> p = ''/''")
    case True
    then show ?thesis by (auto simp add: own_rule_def)
  next
    case False
    then have r: "path_arg ''/'' p = Some (tl p)" using root by simp
    show ?thesis
    proof (cases "path_arg ''/uploads/'' p = None")
      case u: True
      show ?thesis
      proof (cases "path_arg ''/certs/'' p = None")
        case True
        with u r False show ?thesis by (simp add: own_rule_def)
      next
        case c: False
        from ce [OF c] u False show ?thesis by (simp add: own_rule_def)
      qed
    next
      case u: False
      from up [OF u] False show ?thesis by (simp add: own_rule_def)
    qed
  qed
  then show ?thesis by (simp add: p_def)
qed

lemma own_rule_not_feature: "own_rule p \<noteq> Some (Feature e)"
  by (simp add: own_rule_def split: option.splits)

lemma match_once_feature:
  "fst (match_once feature_rules m p) = Some (Rule (Feature e))
    \<longleftrightarrow> module_rule feature_rules m p = Some (ToView e)"
  using own_rule_not_feature [of p e]
  by (auto simp add: match_once_def split: option.splits feature_match.splits)

lemma dispatch_matched:
  "dispatch feature_rules m path_info = Matched e
    \<longleftrightarrow> path_info \<noteq> [] \<and> fst (match_once feature_rules m (request_path path_info)) = Some (Rule e)"
  by (auto simp add: dispatch_def Let_def split: prod.splits option.splits rule_match.splits)

lemma match_once_own:
  assumes "module_rule feature_rules m p \<in> {None, Some OtherMethods}"
  shows "match_once feature_rules m p =
    (case own_rule p of
       Some e \<Rightarrow> if m \<in> own_methods then (Some (Rule e), False) else (None, True)
     | None \<Rightarrow> (None, module_rule feature_rules m p = Some OtherMethods))"
  using assms by (auto simp add: match_once_def split: option.splits)

text \<open>
  C7 (as amended). The route is chosen by rule match on the method and the path, with the
  leading slashes of the path reduced to one, and not by prefix. A request goes to a feature
  module exactly when a rule registered by a module matches its method and path, and such a
  rule lies under \<open>/api\<close>; a path that starts with \<open>/api\<close> or \<open>/api/auth\<close> and that no
  module rule matches is not passed to a module. When no module rule selects a view or asks
  for a trailing slash and the path has no line feed: for GET, HEAD and OPTIONS, \<open>/health\<close>,
  \<open>/\<close>, \<open>/uploads/<name>\<close> and \<open>/certs/<name>\<close> select their views and every other path,
  also one with empty segments, goes to the SPA catch-all; a request with any other method is
  answered 405, provided no module rule selects a view or asks for a slash on the path with
  its slashes merged either. The catch-all is reached only when nothing else matched.
\<close>

theorem dispatch_by_rule_match:
  assumes "path_info \<noteq> []" and "p = request_path path_info"
  shows
    "(dispatch feature_rules m path_info = Matched (Feature e)
        \<longleftrightarrow> (p = ''/api'' \<or> prefix ''/api/'' p) \<and> feature_rules (m, p) = Some (ToView e))
     \<and> (m \<in> {GET, HEAD, OPTIONS} \<and> CHR 0x0A \<notin> set p
          \<and> module_rule feature_rules m p \<in> {None, Some OtherMethods}
        \<longrightarrow> dispatch feature_rules m path_info =
              Matched
                (if p = ''/health'' then Health
                 else if p = ''/'' then SpaRoot
                 else if path_arg ''/uploads/'' p \<noteq> None
                   then ServeUpload (drop (length ''/uploads/'') p)
                 else if path_arg ''/certs/'' p \<noteq> None
                   then ServeCert (drop (length ''/certs/'') p)
                 else SpaCatchAll (tl p)))
     \<and> (m \<notin> {GET, HEAD, OPTIONS} \<and> CHR 0x0A \<notin> set p
          \<and> module_rule feature_rules m p \<in> {None, Some OtherMethods}
          \<and> module_rule feature_rules m (merge_slashes p) \<in> {None, Some OtherMethods}
        \<longrightarrow> dispatch feature_rules m path_info = MethodNotAllowed)
     \<and> (dispatch feature_rules m path_info = Matched (SpaCatchAll q)
        \<longrightarrow> m \<in> {GET, HEAD, OPTIONS} \<and> q = tl p
            \<and> module_rule feature_rules m p \<in> {None, Some OtherMethods}
            \<and> p \<noteq> ''/health'' \<and> p \<noteq> ''/''
            \<and> path_arg ''/uploads/'' p = None \<and> path_arg ''/certs/'' p = None)"
proof (intro conjI impI)
  show "dispatch feature_rules m path_info = Matched (Feature e)
        \<longleftrightarrow> (p = ''/api'' \<or> prefix ''/api/'' p) \<and> feature_rules (m, p) = Some (ToView e)"
    using assms dispatch_matched [of feature_rules m path_info "Feature e"]
      match_once_feature [of feature_rules m p e]
    by (auto simp add: module_rule_def split: if_splits)
next
  assume a: "m \<in> {GET, HEAD, OPTIONS} \<and> CHR 0x0A \<notin> set p
      \<and> module_rule feature_rules m p \<in> {None, Some OtherMethods}"
  then have own: "own_rule p
    = Some (if p = ''/health'' then Health
            else if p = ''/'' then SpaRoot
            else if path_arg ''/uploads/'' p \<noteq> None
              then ServeUpload (drop (length ''/uploads/'') p)
            else if path_arg ''/certs/'' p \<noteq> None
              then ServeCert (drop (length ''/certs/'') p)
            else SpaCatchAll (tl p))"
    using own_rule_request_path [of path_info] assms(2) by simp
  have m: "m \<in> own_methods" using a by (simp add: own_methods_def)
  have "fst (match_once feature_rules m p)
    = Some (Rule (if p = ''/health'' then Health
            else if p = ''/'' then SpaRoot
            else if path_arg ''/uploads/'' p \<noteq> None
              then ServeUpload (drop (length ''/uploads/'') p)
            else if path_arg ''/certs/'' p \<noteq> None
              then ServeCert (drop (length ''/certs/'') p)
            else SpaCatchAll (tl p)))"
    using a m by (simp only: match_once_own own option.case if_True fst_conv)
  then show "dispatch feature_rules m path_info =
              Matched
                (if p = ''/health'' then Health
                 else if p = ''/'' then SpaRoot
                 else if path_arg ''/uploads/'' p \<noteq> None
                   then ServeUpload (drop (length ''/uploads/'') p)
                 else if path_arg ''/certs/'' p \<noteq> None
                   then ServeCert (drop (length ''/certs/'') p)
                 else SpaCatchAll (tl p))"
    using assms dispatch_matched [of feature_rules m path_info] by simp
next
  assume a: "m \<notin> {GET, HEAD, OPTIONS} \<and> CHR 0x0A \<notin> set p
      \<and> module_rule feature_rules m p \<in> {None, Some OtherMethods}
      \<and> module_rule feature_rules m (merge_slashes p) \<in> {None, Some OtherMethods}"
  have m: "m \<notin> own_methods" using a by (simp add: own_methods_def)
  obtain e where own: "own_rule p = Some e"
    using own_rule_request_path [of path_info] assms(2) a by simp
  have first: "match_once feature_rules m p = (None, True)"
    using a m own by (simp add: match_once_own)
  have second: "fst (match_once feature_rules m (merge_slashes p)) = None"
    using a m by (simp add: match_once_own split: option.splits)
  show "dispatch feature_rules m path_info = MethodNotAllowed"
    using assms first second
    by (cases "match_once feature_rules m (merge_slashes p)")
      (simp add: dispatch_def Let_def)
next
  assume a: "dispatch feature_rules m path_info = Matched (SpaCatchAll q)"
  then have mo: "fst (match_once feature_rules m p) = Some (Rule (SpaCatchAll q))"
    using assms dispatch_matched [of feature_rules m path_info "SpaCatchAll q"] by simp
  then have mr: "module_rule feature_rules m p \<in> {None, Some OtherMethods}"
    by (auto simp add: match_once_def split: option.splits feature_match.splits)
  from mo mr have own: "own_rule p = Some (SpaCatchAll q) \<and> m \<in> own_methods"
    by (auto simp add: match_once_own split: option.splits if_splits)
  then show "m \<in> {GET, HEAD, OPTIONS}" by (simp add: own_methods_def)
  from mr show "module_rule feature_rules m p \<in> {None, Some OtherMethods}" .
  from own show "p \<noteq> ''/health''" by (auto simp add: own_rule_def)
  from own show "p \<noteq> ''/''" by (auto simp add: own_rule_def)
  from own show "path_arg ''/uploads/'' p = None"
    by (auto simp add: own_rule_def split: if_splits option.splits)
  from own show "path_arg ''/certs/'' p = None"
    by (auto simp add: own_rule_def split: if_splits option.splits)
  from own have "path_arg ''/'' p = Some q"
    by (auto simp add: own_rule_def split: if_splits option.splits)
  then show "q = tl p"
    using path_arg_drop [of "''/''" p q] by (simp add: drop_Suc)
qed

theorem dispatch_by_rule_match_witness:
  "dispatch [(GET, ''/api/auth/me'') \<mapsto> ToView ''auth.me''] GET ''/api/auth/me''
     = Matched (Feature ''auth.me'')
   \<and> dispatch [(GET, ''/api/auth/me'') \<mapsto> ToView ''auth.me''] GET ''/uploads/a.png''
     = Matched (ServeUpload ''a.png'')
   \<and> dispatch [(GET, ''/api/auth/me'') \<mapsto> ToView ''auth.me''] GET ''/uploads//a.png''
     = Matched (SpaCatchAll ''uploads//a.png'')
   \<and> dispatch [(GET, ''/api/auth/me'') \<mapsto> ToView ''auth.me''] HEAD ''/health''
     = Matched Health
   \<and> dispatch [(GET, ''/api/auth/me'') \<mapsto> ToView ''auth.me''] POST ''/uploads/a.png''
     = MethodNotAllowed"
proof -
  define fr where "fr = [(GET, ''/api/auth/me'') \<mapsto> ToView ''auth.me'']"
  have 1: "dispatch fr GET ''/api/auth/me'' = Matched (Feature ''auth.me'')"
    using dispatch_by_rule_match
      [of "''/api/auth/me''" "''/api/auth/me''" fr GET "''auth.me''"]
    by (simp add: request_path_def fr_def)
  have 2: "dispatch fr GET ''/uploads/a.png'' = Matched (ServeUpload ''a.png'')"
    using dispatch_by_rule_match
      [of "''/uploads/a.png''" "''/uploads/a.png''" fr GET]
    by (simp add: request_path_def fr_def module_rule_def path_arg_def)
  have 3: "dispatch fr GET ''/uploads//a.png'' = Matched (SpaCatchAll ''uploads//a.png'')"
    using dispatch_by_rule_match
      [of "''/uploads//a.png''" "''/uploads//a.png''" fr GET]
    by (simp add: request_path_def fr_def module_rule_def path_arg_def)
  have 4: "dispatch fr HEAD ''/health'' = Matched Health"
    using dispatch_by_rule_match
      [of "''/health''" "''/health''" fr HEAD]
    by (simp add: request_path_def fr_def module_rule_def)
  have 5: "dispatch fr POST ''/uploads/a.png'' = MethodNotAllowed"
    using dispatch_by_rule_match
      [of "''/uploads/a.png''" "''/uploads/a.png''" fr POST]
    by (simp add: request_path_def fr_def module_rule_def)
  from 1 2 3 4 5 show ?thesis by (simp add: fr_def)
qed

text \<open>The claim as stated fails: the path starts with the prefix \<open>/api/auth\<close>, no rule of a
  module matches a GET of it, and the request is handled by the SPA catch-all.\<close>

theorem api_path_without_rule_reaches_spa:
  "dispatch [(POST, ''/api/auth/login'') \<mapsto> ToView ''auth.login''] GET ''/api/auth/profile''
     = Matched (SpaCatchAll ''api/auth/profile'')"
  by (simp add: dispatch_def request_path_def match_once_def module_rule_def own_rule_def
      own_methods_def path_arg_def)

subsection \<open>Creating directories\<close>

lemma node_at_mono: "fs \<subseteq>\<^sub>m fs' \<Longrightarrow> node_at fs p = Some n \<Longrightarrow> node_at fs' p = Some n"
  by (auto simp: node_at_def map_le_def dom_def split: if_splits)

lemma walk_mono: "fs \<subseteq>\<^sub>m fs' \<Longrightarrow> walk fs s cs = Inr q \<Longrightarrow> walk fs' s cs = Inr q"
proof (induction cs arbitrary: s)
  case Nil
  then show ?case by simp
next
  case (Cons c cs)
  from Cons.prems(2) have "node_at fs s = Some Dir"
    by (rule walk_first_is_dir [rotated]) simp
  moreover from this Cons.prems(1) have "node_at fs' s = Some Dir"
    by (rule node_at_mono [rotated])
  ultimately show ?case using Cons by (auto split: if_splits)
qed

lemma stat_mono:
  assumes le: "fs \<subseteq>\<^sub>m fs'" and st: "stat fs cwd p = Inr (q, nd)"
  shows "stat fs' cwd p = Inr (q, nd)"
proof -
  define s where "s = (if hd p = CHR ''/'' then [] else cwd)"
  from st have nul: "CHR 0x00 \<notin> set p" and ne: "p \<noteq> []"
    and w: "walk fs s (split_on CHR ''/'' p) = Inr q" and nd: "node_at fs q = Some nd"
    by (auto simp: stat_def s_def split: if_splits sum.splits option.splits)
  from walk_mono [OF le w] node_at_mono [OF le nd] nul ne show ?thesis
    by (simp add: stat_def s_def)
qed

lemma isdir_iff: "isdir fs cwd p \<longleftrightarrow> (\<exists>q. stat fs cwd p = Inr (q, Dir))"
proof (cases "stat fs cwd p")
  case (Inl e)
  then show ?thesis by (simp add: isdir_def)
next
  case (Inr x)
  obtain q n where x: "x = (q, n)" by (cases x)
  show ?thesis using Inr x by (cases n) (simp_all add: isdir_def)
qed

lemma isdir_mono: "fs \<subseteq>\<^sub>m fs' \<Longrightarrow> isdir fs cwd p \<Longrightarrow> isdir fs' cwd p"
  using stat_mono by (fastforce simp: isdir_iff)

lemma walk_empties: "node_at fs x = Some Dir \<Longrightarrow> walk fs x (replicate k []) = Inr x"
  by (induction k) auto

text \<open>Dropping the trailing empty components leaves a list that the original extends by empty
  components only, and whose last component is not empty.\<close>

lemma rev_take_drop:
  "xs = rev (dropWhile P (rev xs)) @ rev (takeWhile P (rev xs))"
proof -
  have e: "rev xs = takeWhile P (rev xs) @ dropWhile P (rev xs)" by simp
  from arg_cong [OF e, of rev] show ?thesis
    by (simp only: rev_append rev_rev_ident)
qed

lemma all_same_replicate: "(\<And>x. x \<in> set ys \<Longrightarrow> x = a) \<Longrightarrow> ys = replicate (length ys) a"
  by (rule replicate_eqI) auto

lemma strip_trailing_empty:
  "\<exists>k. xs = rev (dropWhile (\<lambda>c. c = []) (rev xs)) @ replicate k []"
proof -
  have "rev (takeWhile (\<lambda>c. c = []) (rev xs))
      = replicate (length (rev (takeWhile (\<lambda>c. c = []) (rev xs)))) []"
    by (rule all_same_replicate) (auto dest: set_takeWhileD)
  with rev_take_drop [of xs "\<lambda>c. c = []"] show ?thesis by metis
qed

lemma last_strip_nonempty:
  "rev (dropWhile (\<lambda>c. c = []) (rev xs)) \<noteq> [] \<Longrightarrow> last (rev (dropWhile (\<lambda>c. c = []) (rev xs))) \<noteq> []"
  using hd_dropWhile [of "\<lambda>c. c = []" "rev xs"] by (simp add: last_rev)

text \<open>What a successful \<open>mkdir\<close> did.\<close>

lemma mkdir_Inr:
  assumes "mkdir fs cwd p = Inr fs'"
  shows "\<exists>parent c k. CHR 0x00 \<notin> set p \<and> p \<noteq> []
      \<and> split_on CHR ''/'' p = (butlast (rev (dropWhile (\<lambda>c. c = []) (rev (split_on CHR ''/'' p)))) @ [c]) @ replicate k []
      \<and> walk fs (if hd p = CHR ''/'' then [] else cwd)
           (butlast (rev (dropWhile (\<lambda>c. c = []) (rev (split_on CHR ''/'' p))))) = Inr parent
      \<and> node_at fs parent = Some Dir \<and> c \<noteq> [] \<and> c \<noteq> ''.'' \<and> c \<noteq> ''..''
      \<and> node_at fs (parent @ [c]) = None \<and> fs' = fs(parent @ [c] \<mapsto> Dir)"
proof -
  define comps where "comps = rev (dropWhile (\<lambda>c. c = []) (rev (split_on CHR ''/'' p)))"
  from assms have nul: "CHR 0x00 \<notin> set p" and ne: "p \<noteq> []" and cne: "comps \<noteq> []"
    by (auto simp: mkdir_def Let_def comps_def split: if_splits)
  from assms nul ne cne obtain parent where
    w: "walk fs (if hd p = CHR ''/'' then [] else cwd) (butlast comps) = Inr parent"
    and d: "node_at fs parent = Some Dir"
    and c: "last comps \<noteq> ''.''" "last comps \<noteq> ''..''"
    and n: "node_at fs (parent @ [last comps]) = None"
    and fs': "fs' = fs(parent @ [last comps] \<mapsto> Dir)"
    by (auto simp: mkdir_def Let_def comps_def [symmetric]
        split: if_splits sum.splits option.splits node.splits)
  obtain k where "split_on CHR ''/'' p = comps @ replicate k []"
    using strip_trailing_empty [of "split_on CHR ''/'' p"] by (auto simp: comps_def)
  then have sp: "split_on CHR ''/'' p = (butlast comps @ [last comps]) @ replicate k []"
    using cne by simp
  have "last comps \<noteq> []"
    using cne last_strip_nonempty [of "split_on CHR ''/'' p"] by (simp add: comps_def)
  with nul ne sp w d c n fs' show ?thesis
    unfolding comps_def by blast
qed

lemma mkdir_le: "mkdir fs cwd p = Inr fs' \<Longrightarrow> fs \<subseteq>\<^sub>m fs'"
proof -
  assume "mkdir fs cwd p = Inr fs'"
  from mkdir_Inr [OF this] obtain parent c where
    "node_at fs (parent @ [c]) = None" and "fs' = fs(parent @ [c] \<mapsto> Dir)"
    by blast
  then show ?thesis
    by (auto simp: map_le_def node_at_def)
qed

lemma mkdir_isdir:
  assumes "mkdir fs cwd p = Inr fs'"
  shows "isdir fs' cwd p"
proof -
  from mkdir_Inr [OF assms] obtain parent c k X where
    nul: "CHR 0x00 \<notin> set p" and ne: "p \<noteq> []"
    and sp: "split_on CHR ''/'' p = (X @ [c]) @ replicate k []"
    and w: "walk fs (if hd p = CHR ''/'' then [] else cwd) X = Inr parent"
    and d: "node_at fs parent = Some Dir" and c: "c \<noteq> []" "c \<noteq> ''.''" "c \<noteq> ''..''"
    and fs': "fs' = fs(parent @ [c] \<mapsto> Dir)"
    by blast
  have le: "fs \<subseteq>\<^sub>m fs'" by (rule mkdir_le [OF assms])
  have new: "node_at fs' (parent @ [c]) = Some Dir"
    by (simp add: fs' node_at_def)
  have "walk fs' (if hd p = CHR ''/'' then [] else cwd) X = Inr parent"
    by (rule walk_mono [OF le w])
  moreover have "walk fs' parent [c] = Inr (parent @ [c])"
    using node_at_mono [OF le d] c by simp
  moreover have "walk fs' (parent @ [c]) (replicate k []) = Inr (parent @ [c])"
    by (rule walk_empties [OF new])
  ultimately have "walk fs' (if hd p = CHR ''/'' then [] else cwd) ((X @ [c]) @ replicate k [])
      = Inr (parent @ [c])"
    by (simp only: walk_append sum.case)
  then have "walk fs' (if hd p = CHR ''/'' then [] else cwd) (split_on CHR ''/'' p)
      = Inr (parent @ [c])"
    by (simp only: sp)
  with nul ne new show ?thesis by (simp add: isdir_iff stat_def)
qed

text \<open>\<open>mkdir\<close> on a path that names something raises \<open>FileExistsError\<close>.\<close>

lemma mkdir_exists:
  assumes "stat fs cwd p = Inr (q, nd)"
  shows "mkdir fs cwd p = Inl FileExistsError"
proof -
  define comps where "comps = rev (dropWhile (\<lambda>c. c = []) (rev (split_on CHR ''/'' p)))"
  define s where "s = (if hd p = CHR ''/'' then [] else cwd)"
  from assms have nul: "CHR 0x00 \<notin> set p" and ne: "p \<noteq> []"
    and w: "walk fs s (split_on CHR ''/'' p) = Inr q" and nd: "node_at fs q = Some nd"
    by (auto simp: stat_def s_def split: if_splits sum.splits option.splits)
  show ?thesis
  proof (cases "comps = []")
    case True
    with nul ne show ?thesis by (simp add: mkdir_def comps_def)
  next
    case cne: False
    obtain k where "split_on CHR ''/'' p = comps @ replicate k []"
      using strip_trailing_empty [of "split_on CHR ''/'' p"] by (auto simp: comps_def)
    then have sp: "split_on CHR ''/'' p = butlast comps @ [last comps] @ replicate k []"
      using cne by simp
    have lne: "last comps \<noteq> []"
      using cne last_strip_nonempty [of "split_on CHR ''/'' p"] by (simp add: comps_def)
    from w obtain parent where wp: "walk fs s (butlast comps) = Inr parent"
      and wr: "walk fs parent ([last comps] @ replicate k []) = Inr q"
      unfolding sp by (auto simp: walk_append_Inr)
    from wr have d: "node_at fs parent = Some Dir"
      by (rule walk_first_is_dir [rotated]) simp
    have "last comps = ''.'' \<or> last comps = ''..'' \<or> node_at fs (parent @ [last comps]) \<noteq> None"
    proof (cases "last comps = ''.'' \<or> last comps = ''..''")
      case True
      then show ?thesis by blast
    next
      case False
      with wr d lne have wk: "walk fs (parent @ [last comps]) (replicate k []) = Inr q"
        by simp
      show ?thesis
      proof (cases k)
        case 0
        with wk nd show ?thesis by simp
      next
        case (Suc j)
        with wk have "node_at fs (parent @ [last comps]) = Some Dir"
          by (intro walk_first_is_dir [of "replicate k []" fs _ q]) auto
        then show ?thesis by simp
      qed
    qed
    with nul ne cne wp d show ?thesis
      by (auto simp: mkdir_def Let_def comps_def [symmetric] s_def [symmetric])
  qed
qed

lemma mkdir_exist_ok_le: "mkdir_exist_ok fs cwd p = (r, fs') \<Longrightarrow> fs \<subseteq>\<^sub>m fs'"
  by (auto simp: mkdir_exist_ok_def split: sum.splits if_splits dest: mkdir_le)

lemma mkdir_exist_ok_isdir: "mkdir_exist_ok fs cwd p = (None, fs') \<Longrightarrow> isdir fs' cwd p"
  by (auto simp: mkdir_exist_ok_def split: sum.splits if_splits dest: mkdir_isdir)

lemma mkdir_exist_ok_existing: "isdir fs cwd p \<Longrightarrow> mkdir_exist_ok fs cwd p = (None, fs)"
proof -
  assume d: "isdir fs cwd p"
  then obtain q where "stat fs cwd p = Inr (q, Dir)"
    unfolding isdir_iff by blast
  from mkdir_exists [OF this] d show ?thesis by (simp add: mkdir_exist_ok_def)
qed

lemma makedirs_direct:
  assumes "\<not> (fst (makedirs_split name) \<noteq> [] \<and> snd (makedirs_split name) \<noteq> []
        \<and> \<not> exists fs cwd (fst (makedirs_split name)))"
  shows "makedirs fs cwd name = mkdir_exist_ok fs cwd name"
  by (subst makedirs.simps, unfold Let_def, rule if_not_P, rule assms)

text \<open>After the recursive call, the name's last component \<open>.\<close> ends the call; otherwise
  the call ends with \<open>mkdir\<close>, unless the recursive call raised something else than
  \<open>FileExistsError\<close>.\<close>

lemma makedirs_rec:
  assumes c: "fst (makedirs_split name) \<noteq> [] \<and> snd (makedirs_split name) \<noteq> []
        \<and> \<not> exists fs cwd (fst (makedirs_split name))"
    and inner: "makedirs fs cwd (fst (makedirs_split name)) = (r1, fs1)"
  shows "makedirs fs cwd name =
      (if r1 = None \<or> r1 = Some FileExistsError
       then (if snd (makedirs_split name) = ''.'' then (None, fs1)
             else mkdir_exist_ok fs1 cwd name)
       else (r1, fs1))"
proof -
  have "makedirs fs cwd name =
      (case makedirs fs cwd (fst (makedirs_split name)) of
              (Some e, fs') \<Rightarrow>
                if e = FileExistsError
                then (if snd (makedirs_split name) = ''.'' then (None, fs')
                      else mkdir_exist_ok fs' cwd name)
                else (Some e, fs')
            | (None, fs') \<Rightarrow>
                if snd (makedirs_split name) = ''.'' then (None, fs')
                else mkdir_exist_ok fs' cwd name)"
    by (subst makedirs.simps, unfold Let_def, rule if_P, rule c)
  then show ?thesis
    unfolding inner by (cases r1) simp_all
qed

lemma makedirs_le: "makedirs fs cwd name = (r, fs') \<Longrightarrow> fs \<subseteq>\<^sub>m fs'"
proof (induction fs cwd name arbitrary: r fs' rule: makedirs.induct)
  case (1 fs cwd name)
  show ?case
  proof (cases "fst (makedirs_split name) \<noteq> [] \<and> snd (makedirs_split name) \<noteq> []
        \<and> \<not> exists fs cwd (fst (makedirs_split name))")
    case False
    from makedirs_direct [OF False] "1.prems" have "mkdir_exist_ok fs cwd name = (r, fs')"
      by simp
    then show ?thesis by (rule mkdir_exist_ok_le)
  next
    case True
    obtain r1 fs1 where inner: "makedirs fs cwd (fst (makedirs_split name)) = (r1, fs1)"
      by (cases "makedirs fs cwd (fst (makedirs_split name))") auto
    have le1: "fs \<subseteq>\<^sub>m fs1"
      by (rule "1.IH" [OF refl refl True inner])
    from makedirs_rec [OF True inner] "1.prems"
    have "fs' = fs1 \<or> mkdir_exist_ok fs1 cwd name = (r, fs')"
      by (auto split: if_splits)
    then show ?thesis
    proof
      assume "fs' = fs1"
      with le1 show ?thesis by simp
    next
      assume "mkdir_exist_ok fs1 cwd name = (r, fs')"
      from map_le_trans [OF le1 mkdir_exist_ok_le [OF this]] show ?thesis .
    qed
  qed
qed

text \<open>Unless the name ends in the component \<open>.\<close>, a call that returns leaves the name a
  directory.\<close>

lemma makedirs_isdir:
  assumes nd: "snd (makedirs_split name) \<noteq> ''.''" and m: "makedirs fs cwd name = (None, fs')"
  shows "isdir fs' cwd name"
proof (cases "fst (makedirs_split name) \<noteq> [] \<and> snd (makedirs_split name) \<noteq> []
        \<and> \<not> exists fs cwd (fst (makedirs_split name))")
  case False
  from makedirs_direct [OF False] m have "mkdir_exist_ok fs cwd name = (None, fs')"
    by simp
  then show ?thesis by (rule mkdir_exist_ok_isdir)
next
  case True
  obtain r1 fs1 where inner: "makedirs fs cwd (fst (makedirs_split name)) = (r1, fs1)"
    by (cases "makedirs fs cwd (fst (makedirs_split name))") auto
  from makedirs_rec [OF True inner] m nd have "mkdir_exist_ok fs1 cwd name = (None, fs')"
    by (auto split: if_splits)
  then show ?thesis by (rule mkdir_exist_ok_isdir)
qed

subsection \<open>The head of a split path\<close>

lemma not_replicate_iff: "h \<noteq> replicate (length h) c \<longleftrightarrow> \<not> set h \<subseteq> {c}"
  by (induction h) auto

lemma psplit_decomp:
  assumes "psplit p = (h, t)" and "h \<noteq> []"
  shows "set h \<subseteq> {CHR ''/''} \<or> (\<exists>k. p = h @ replicate (Suc k) CHR ''/'' @ t)"
proof -
  define h0 where "h0 = rev (dropWhile (\<lambda>c. c \<noteq> CHR ''/'') (rev p))"
  define t0 where "t0 = rev (takeWhile (\<lambda>c. c \<noteq> CHR ''/'') (rev p))"
  have eq: "psplit p = (if h0 \<noteq> [] \<and> h0 \<noteq> replicate (length h0) CHR ''/''
               then rev (dropWhile (\<lambda>c. c = CHR ''/'') (rev h0)) else h0, t0)"
    unfolding psplit_def Let_def h0_def t0_def by (rule refl)
  from assms(1) [unfolded eq prod.inject]
  have h: "h = (if h0 \<noteq> [] \<and> h0 \<noteq> replicate (length h0) CHR ''/''
               then rev (dropWhile (\<lambda>c. c = CHR ''/'') (rev h0)) else h0)"
    and t: "t = t0"
    by blast+
  have p: "p = h0 @ t"
    unfolding h0_def t t0_def by (rule rev_take_drop)
  show ?thesis
  proof (cases "h0 \<noteq> [] \<and> h0 \<noteq> replicate (length h0) CHR ''/''")
    case False
    then have "h = h0" unfolding h by (rule if_not_P)
    with False assms(2) have "\<not> h \<noteq> replicate (length h) CHR ''/''" by blast
    then show ?thesis unfolding not_replicate_iff by blast
  next
    case True
    then have hs: "h = rev (dropWhile (\<lambda>c. c = CHR ''/'') (rev h0))"
      unfolding h by (rule if_P)
    have h0: "h0 = h @ rev (takeWhile (\<lambda>c. c = CHR ''/'') (rev h0))"
      unfolding hs by (rule rev_take_drop)
    have rep: "rev (takeWhile (\<lambda>c. c = CHR ''/'') (rev h0))
        = replicate (length (rev (takeWhile (\<lambda>c. c = CHR ''/'') (rev h0)))) CHR ''/''"
      by (rule all_same_replicate) (auto dest: set_takeWhileD)
    have dne: "dropWhile (\<lambda>c. c \<noteq> CHR ''/'') (rev p) \<noteq> []"
      using True by (simp add: h0_def)
    have "hd (dropWhile (\<lambda>c. c \<noteq> CHR ''/'') (rev p)) = CHR ''/''"
      using hd_dropWhile [OF dne] by simp
    then have "hd (rev h0) = CHR ''/''" by (simp add: h0_def)
    moreover have "rev h0 \<noteq> []" using True by simp
    ultimately have "takeWhile (\<lambda>c. c = CHR ''/'') (rev h0) \<noteq> []"
      by (cases "rev h0") auto
    then obtain k where "length (rev (takeWhile (\<lambda>c. c = CHR ''/'') (rev h0))) = Suc k"
      by (cases "takeWhile (\<lambda>c. c = CHR ''/'') (rev h0)") auto
    with rep have "rev (takeWhile (\<lambda>c. c = CHR ''/'') (rev h0)) = replicate (Suc k) CHR ''/''"
      by (simp only:)
    with h0 have "h0 = h @ replicate (Suc k) CHR ''/''" by (simp only:)
    with p have "p = h @ replicate (Suc k) CHR ''/'' @ t" by (simp only: append_assoc)
    then show ?thesis by blast
  qed
qed

lemma psplit_all_slashes:
  assumes "h0 \<noteq> []" and "set h0 \<subseteq> {CHR ''/''}"
  shows "snd (psplit h0) = []"
proof -
  have "rev h0 \<noteq> []" using assms(1) by simp
  moreover have "hd (rev h0) \<in> set h0"
    using assms(1) by (metis hd_in_set rev_is_Nil_conv set_rev)
  ultimately have "takeWhile (\<lambda>c. c \<noteq> CHR ''/'') (rev h0) = []"
    using assms(2) by (cases "rev h0") auto
  then show ?thesis by (simp add: psplit_def Let_def)
qed

lemma psplit_Nil: "psplit [] = ([], [])"
  by (simp add: psplit_def)

lemma makedirs_split_decomp:
  assumes ms: "makedirs_split name = (h, t)" and h: "h \<noteq> []" and t: "t \<noteq> []"
  shows "set h \<subseteq> {CHR ''/''} \<or> (\<exists>rest. name = h @ CHR ''/'' # rest)"
proof (cases "snd (psplit name) = []")
  case False
  with ms have "psplit name = (h, t)"
    by (simp add: makedirs_split_def case_prod_beta)
  from psplit_decomp [OF this h] show ?thesis by auto
next
  case True
  define h0 where "h0 = fst (psplit name)"
  from True have p0: "psplit name = (h0, [])" by (simp add: h0_def prod_eq_iff)
  from True ms have p1: "psplit h0 = (h, t)"
    by (simp add: makedirs_split_def case_prod_beta h0_def)
  have h0ne: "h0 \<noteq> []"
    using p1 h psplit_Nil by auto
  have "\<not> set h0 \<subseteq> {CHR ''/''}"
    using psplit_all_slashes [OF h0ne] p1 t by auto
  with psplit_decomp [OF p0 h0ne] obtain k where n: "name = h0 @ replicate (Suc k) CHR ''/'' @ []"
    by blast
  from psplit_decomp [OF p1 h] show ?thesis
  proof
    assume "set h \<subseteq> {CHR ''/''}"
    then show ?thesis ..
  next
    assume "\<exists>k. h0 = h @ replicate (Suc k) CHR ''/'' @ t"
    then obtain j where "h0 = h @ replicate (Suc j) CHR ''/'' @ t" ..
    with n have "name = h @ CHR ''/'' # (replicate j CHR ''/'' @ t @ replicate (Suc k) CHR ''/'')"
      by simp
    then show ?thesis by blast
  qed
qed

lemma split_on_all_sep: "set h \<subseteq> {sep} \<Longrightarrow> split_on sep h = replicate (Suc (length h)) []"
  by (induction h) auto

lemma stat_slashes:
  assumes "h \<noteq> []" and "set h \<subseteq> {CHR ''/''}"
  shows "stat fs cwd h = Inr ([], Dir)"
proof -
  have sp: "split_on CHR ''/'' h = replicate (Suc (length h)) []"
    by (rule split_on_all_sep [OF assms(2)])
  have nul: "CHR 0x00 \<notin> set h"
    using assms(2) by auto
  have hd: "hd h = CHR ''/''"
    using assms by (cases h) auto
  have "walk fs [] (replicate (Suc (length h)) []) = Inr []"
    by (rule walk_empties) (simp add: node_at_def)
  with assms(1) nul hd sp show ?thesis
    by (simp add: stat_def node_at_def)
qed

lemma exists_head:
  assumes st: "stat fs cwd name = Inr (q, nd)"
    and ms: "makedirs_split name = (h, t)" and h: "h \<noteq> []" and t: "t \<noteq> []"
  shows "exists fs cwd h"
proof -
  from makedirs_split_decomp [OF ms h t] show ?thesis
  proof
    assume "set h \<subseteq> {CHR ''/''}"
    from stat_slashes [OF h this] show ?thesis by (simp add: exists_def)
  next
    assume "\<exists>rest. name = h @ CHR ''/'' # rest"
    then obtain rest where n: "name = h @ CHR ''/'' # rest" ..
    define s where "s = (if hd name = CHR ''/'' then [] else cwd)"
    from st have nul: "CHR 0x00 \<notin> set name"
      and w: "walk fs s (split_on CHR ''/'' name) = Inr q"
      by (auto simp: stat_def s_def split: if_splits sum.splits option.splits)
    have "split_on CHR ''/'' name = split_on CHR ''/'' h @ split_on CHR ''/'' rest"
      unfolding n by (rule split_on_append_sep)
    with w obtain r where wr: "walk fs s (split_on CHR ''/'' h) = Inr r"
      and wq: "walk fs r (split_on CHR ''/'' rest) = Inr q"
      by (auto simp: walk_append_Inr)
    from wq have "node_at fs r = Some Dir"
      using split_on_nonempty by (rule walk_first_is_dir [rotated])
    moreover have "hd h = hd name" using h n by (cases h) auto
    moreover have "CHR 0x00 \<notin> set h" using nul n by auto
    ultimately have "stat fs cwd h = Inr (r, Dir)"
      using h wr by (simp add: stat_def s_def)
    then show ?thesis by (simp add: exists_def)
  qed
qed

text \<open>A name that is a directory already: no error and no change.\<close>

lemma makedirs_existing:
  assumes "isdir fs cwd name"
  shows "makedirs fs cwd name = (None, fs)"
proof -
  from assms obtain q where st: "stat fs cwd name = Inr (q, Dir)"
    unfolding isdir_iff by blast
  have ms: "makedirs_split name = (fst (makedirs_split name), snd (makedirs_split name))"
    by simp
  have "\<not> (fst (makedirs_split name) \<noteq> [] \<and> snd (makedirs_split name) \<noteq> []
        \<and> \<not> exists fs cwd (fst (makedirs_split name)))"
    using exists_head [OF st ms] by blast
  from makedirs_direct [OF this] mkdir_exist_ok_existing [OF assms] show ?thesis
    by simp
qed

subsection \<open>The start-up step\<close>

text \<open>
  C9 (as amended). When the upload and certificate directories exist already, the step raises
  nothing and leaves the file system as it is. When neither configured path ends in the
  component \<open>.\<close> (the defaults \<open>uploads\<close> and \<open>certs\<close> do not) and the step returns,
  both paths name directories afterwards, nothing that was there before has been removed or
  changed, and running the step again raises nothing and changes nothing.
\<close>

theorem ensure_dirs_idempotent:
  "(isdir fs cwd (UPLOAD_DIR c) \<and> isdir fs cwd (CERT_DIR c)
      \<longrightarrow> ensure_dirs c fs cwd = (None, fs))
   \<and> (snd (makedirs_split (UPLOAD_DIR c)) \<noteq> ''.'' \<and> snd (makedirs_split (CERT_DIR c)) \<noteq> ''.''
        \<and> ensure_dirs c fs cwd = (None, fs')
      \<longrightarrow> isdir fs' cwd (UPLOAD_DIR c) \<and> isdir fs' cwd (CERT_DIR c) \<and> fs \<subseteq>\<^sub>m fs'
          \<and> ensure_dirs c fs' cwd = (None, fs'))
   \<and> snd (makedirs_split ''uploads'') = ''uploads''
   \<and> snd (makedirs_split ''certs'') = ''certs''"
proof -
  have existing: "ensure_dirs c g cwd = (None, g)"
    if "isdir g cwd (UPLOAD_DIR c)" and "isdir g cwd (CERT_DIR c)" for g
    using makedirs_existing [OF that(1)] makedirs_existing [OF that(2)]
    by (simp add: ensure_dirs_def)
  have again: "isdir fs' cwd (UPLOAD_DIR c) \<and> isdir fs' cwd (CERT_DIR c) \<and> fs \<subseteq>\<^sub>m fs'
          \<and> ensure_dirs c fs' cwd = (None, fs')"
    if u: "snd (makedirs_split (UPLOAD_DIR c)) \<noteq> ''.''"
      and ce: "snd (makedirs_split (CERT_DIR c)) \<noteq> ''.''"
      and e: "ensure_dirs c fs cwd = (None, fs')"
  proof -
    obtain r1 fs1 where m1: "makedirs fs cwd (UPLOAD_DIR c) = (r1, fs1)"
      by (cases "makedirs fs cwd (UPLOAD_DIR c)") auto
    from e m1 have r1: "r1 = None" and m2: "makedirs fs1 cwd (CERT_DIR c) = (None, fs')"
      by (cases r1; simp add: ensure_dirs_def)+
    have le1: "fs \<subseteq>\<^sub>m fs1" by (rule makedirs_le [OF m1])
    have le2: "fs1 \<subseteq>\<^sub>m fs'" by (rule makedirs_le [OF m2])
    have "isdir fs1 cwd (UPLOAD_DIR c)"
      using m1 r1 by (intro makedirs_isdir [OF u]) simp
    then have du: "isdir fs' cwd (UPLOAD_DIR c)" by (rule isdir_mono [OF le2])
    have dc: "isdir fs' cwd (CERT_DIR c)" by (rule makedirs_isdir [OF ce m2])
    from du dc map_le_trans [OF le1 le2] existing [OF du dc] show ?thesis by simp
  qed
  have "snd (makedirs_split ''uploads'') = ''uploads''"
    and "snd (makedirs_split ''certs'') = ''certs''"
    by (simp_all add: makedirs_split_def psplit_def)
  with existing [of fs] again show ?thesis by blast
qed

theorem ensure_dirs_idempotent_witness:
  "ensure_dirs (create_app_config ''/srv'' [''UPLOAD_DIR'' \<mapsto> ''data/up'']) example_fs [''srv'']
     = (None, example_fs([''srv'', ''data''] \<mapsto> Dir, [''srv'', ''data'', ''up''] \<mapsto> Dir))
   \<and> ensure_dirs (create_app_config ''/srv'' [''UPLOAD_DIR'' \<mapsto> ''data/up''])
        (example_fs([''srv'', ''data''] \<mapsto> Dir, [''srv'', ''data'', ''up''] \<mapsto> Dir)) [''srv'']
     = (None, example_fs([''srv'', ''data''] \<mapsto> Dir, [''srv'', ''data'', ''up''] \<mapsto> Dir))"
proof -
  define c where "c = create_app_config ''/srv'' [''UPLOAD_DIR'' \<mapsto> ''data/up'']"
  have u: "UPLOAD_DIR c = ''data/up''" and ce: "CERT_DIR c = ''certs''"
    by (simp_all add: c_def create_app_config_def getenv_default_def)
  have m1: "makedirs example_fs [''srv''] ''data/up''
      = (None, example_fs([''srv'', ''data''] \<mapsto> Dir, [''srv'', ''data'', ''up''] \<mapsto> Dir))"
    by (simp add: makedirs.simps makedirs_split_def psplit_def mkdir_exist_ok_def mkdir_def
        exists_def isdir_def stat_def node_at_def example_fs_def Let_def)
  have m2: "makedirs (example_fs([''srv'', ''data''] \<mapsto> Dir, [''srv'', ''data'', ''up''] \<mapsto> Dir))
      [''srv''] ''certs''
      = (None, example_fs([''srv'', ''data''] \<mapsto> Dir, [''srv'', ''data'', ''up''] \<mapsto> Dir))"
    by (rule makedirs_existing)
      (simp add: isdir_def stat_def node_at_def example_fs_def)
  have first: "ensure_dirs c example_fs [''srv'']
     = (None, example_fs([''srv'', ''data''] \<mapsto> Dir, [''srv'', ''data'', ''up''] \<mapsto> Dir))"
    by (simp add: ensure_dirs_def u ce m1 m2)
  have nd: "snd (makedirs_split (UPLOAD_DIR c)) \<noteq> ''.'' \<and> snd (makedirs_split (CERT_DIR c)) \<noteq> ''.''"
    by (simp add: u ce makedirs_split_def psplit_def)
  from ensure_dirs_idempotent [of example_fs "[''srv'']" c
      "example_fs([''srv'', ''data''] \<mapsto> Dir, [''srv'', ''data'', ''up''] \<mapsto> Dir)"]
    nd first
  have "ensure_dirs c (example_fs([''srv'', ''data''] \<mapsto> Dir, [''srv'', ''data'', ''up''] \<mapsto> Dir))
        [''srv'']
     = (None, example_fs([''srv'', ''data''] \<mapsto> Dir, [''srv'', ''data'', ''up''] \<mapsto> Dir))"
    by blast
  with first show ?thesis unfolding c_def by simp
qed

text \<open>The claim as stated fails: with the upload directory \<open>new/../secret.txt/.\<close>, where
  \<open>secret.txt\<close> is a regular file and \<open>new\<close> does not exist, the first run creates
  \<open>new\<close> and returns, and the second run raises \<open>NotADirectoryError\<close>.\<close>

theorem ensure_dirs_second_run_raises:
  "ensure_dirs (create_app_config ''/srv'' [''UPLOAD_DIR'' \<mapsto> ''new/../secret.txt/.''])
     example_fs [''srv'']
     = (None, example_fs([''srv'', ''new''] \<mapsto> Dir))
   \<and> ensure_dirs (create_app_config ''/srv'' [''UPLOAD_DIR'' \<mapsto> ''new/../secret.txt/.''])
        (example_fs([''srv'', ''new''] \<mapsto> Dir)) [''srv'']
     = (Some NotADirectoryError, example_fs([''srv'', ''new''] \<mapsto> Dir))"
proof -
  have m1: "makedirs example_fs [''srv''] ''new/../secret.txt/.''
      = (None, example_fs([''srv'', ''new''] \<mapsto> Dir))"
    by (simp add: makedirs.simps makedirs_split_def psplit_def mkdir_exist_ok_def mkdir_def
        exists_def isdir_def stat_def node_at_def example_fs_def Let_def)
  have m2: "makedirs (example_fs([''srv'', ''new''] \<mapsto> Dir)) [''srv''] ''certs''
      = (None, example_fs([''srv'', ''new''] \<mapsto> Dir))"
    by (rule makedirs_existing)
      (simp add: isdir_def stat_def node_at_def example_fs_def)
  have m3: "makedirs (example_fs([''srv'', ''new''] \<mapsto> Dir)) [''srv'']
      ''new/../secret.txt/.''
      = (Some NotADirectoryError, example_fs([''srv'', ''new''] \<mapsto> Dir))"
    by (simp add: makedirs.simps makedirs_split_def psplit_def mkdir_exist_ok_def mkdir_def
        exists_def isdir_def stat_def node_at_def example_fs_def Let_def)
  show ?thesis
    by (simp add: ensure_dirs_def create_app_config_def getenv_default_def m1 m2 m3)
qed

end
